theory Spec2Isabelle
  imports Complex_Main "HOL-Library.Log_Nat"
begin

section \<open>The shared store\<close>

text \<open>
  The workers share one PostgreSQL database. Three tables are touched by the code:
  \<^verbatim>\<open>scan_jobs\<close> (one row per job), \<^verbatim>\<open>scan_results\<close> (append-only, one row per
  executed check) and \<^verbatim>\<open>targets\<close> (read only). A connection is modelled by the
  state of these tables as the connection sees it; every statement of the source is
  followed by \<^verbatim>\<open>conn.commit()\<close>, so each function below is one committed step.
  Statements are assumed to succeed: a failing database is outside this model.
\<close>

datatype job_status = Queued | Running | Completed | Failed

datatype check_status = Success | CheckFailed | Error

datatype severity = Info | Low | Medium | High

text \<open>
  The payload of a result is a JSON-like Python value. A float is kept as the rational
  it denotes.
\<close>

datatype pyval =
    PNone
  | PBool bool
  | PInt int
  | PFloat rat
  | PStr string
  | PList "pyval list"
  | PDict "(string \<times> pyval) list"

text \<open>
  What a check returns: the dictionary with the keys \<^verbatim>\<open>status\<close>,
  \<^verbatim>\<open>data\<close>, \<^verbatim>\<open>findings\<close> and \<^verbatim>\<open>severity\<close>. Every return statement of
  every check builds all four keys, so the defaults of the callers'
  \<^verbatim>\<open>result.get(key, default)\<close> are never taken and the fields are total.
\<close>

record check_result =
  status :: check_status
  data :: pyval
  findings :: int
  severity :: severity

text \<open>
  Exceptions (subclasses of \<^verbatim>\<open>Exception\<close>), by the classes the handlers tell
  apart, each with its message \<^verbatim>\<open>str(e)\<close>. A computation that may raise returns
  \<open>exn + 'a\<close>, \<open>Inl\<close> for the exception.
\<close>

datatype exn =
    TimeoutExpired string
  | FileNotFoundError string
  | ParseError string
  | OtherException string

fun str_of_exn :: "exn \<Rightarrow> string" where
  "str_of_exn (TimeoutExpired m) = m"
| "str_of_exn (FileNotFoundError m) = m"
| "str_of_exn (ParseError m) = m"
| "str_of_exn (OtherException m) = m"

text \<open>A row of \<^verbatim>\<open>scan_jobs\<close>, with the columns the two workers read or write.\<close>

record scan_job =
  target_id :: string
  url :: "string option"
  checks :: "string list"
  organization_id :: string
  job_status :: job_status
  progress :: int
  created_at :: nat
  started_at :: "nat option"
  completed_at :: "nat option"
  updated_at :: "nat option"

text \<open>
  A row of \<^verbatim>\<open>scan_results\<close>. Its generated primary key
  (\<^verbatim>\<open>gen_random_uuid()\<close>) is left out: nothing reads it.
\<close>

record scan_result =
  scan_id :: string
  check_type :: string
  row_status :: check_status
  row_data :: pyval
  row_findings :: int
  row_severity :: severity

text \<open>
  The connection state. \<open>scan_jobs\<close> is the table in its physical order, each row
  with its \<^verbatim>\<open>id\<close>. \<open>locked\<close> holds the ids of the rows that another open
  transaction has locked (\<^verbatim>\<open>FOR UPDATE\<close>), and \<open>now\<close> is what \<^verbatim>\<open>NOW()\<close>
  returns. The clock belongs to the state: no function of the workers advances it,
  and nothing below depends on its value.
\<close>

record db =
  scan_jobs :: "(string \<times> scan_job) list"
  scan_results :: "scan_result list"
  targets :: "string \<rightharpoonup> string"
  locked :: "string set"
  now :: nat

text \<open>\<^verbatim>\<open>UPDATE scan_jobs SET ... WHERE id = %s\<close>: every row with that id is rewritten.\<close>

definition sql_update :: "db \<Rightarrow> string \<Rightarrow> (scan_job \<Rightarrow> scan_job) \<Rightarrow> db" where
  "sql_update conn sid f =
     conn\<lparr>scan_jobs := map (\<lambda>(k, j). if k = sid then (k, f j) else (k, j)) (scan_jobs conn)\<rparr>"

text \<open>\<^verbatim>\<open>SELECT ... FROM scan_jobs WHERE id = %s\<close>, first row.\<close>

definition job_of :: "db \<Rightarrow> string \<Rightarrow> scan_job option" where
  "job_of conn sid = map_of (scan_jobs conn) sid"

subsection \<open>scan\_worker.py: the statements of the polling worker\<close>

text \<open>Python's \<^verbatim>\<open>progress or 0\<close>: \<^verbatim>\<open>None\<close> and \<^verbatim>\<open>0\<close> both give 0.\<close>

definition or_zero :: "int option \<Rightarrow> int" where
  "or_zero p = (case p of None \<Rightarrow> 0 | Some n \<Rightarrow> n)"

text \<open>\<^verbatim>\<open>update_scan_status(conn, scan_id, status, progress=None)\<close>, lines 52-79.\<close>

definition update_scan_status :: "db \<Rightarrow> string \<Rightarrow> job_status \<Rightarrow> int option \<Rightarrow> db" where
  "update_scan_status conn sid st prog =
     (if st = Running then
        sql_update conn sid
          (\<lambda>j. j\<lparr>job_status := st, progress := or_zero prog, started_at := Some (now conn)\<rparr>)
      else if st = Completed then
        sql_update conn sid
          (\<lambda>j. j\<lparr>job_status := st, progress := 100, completed_at := Some (now conn)\<rparr>)
      else if st = Failed then
        sql_update conn sid
          (\<lambda>j. j\<lparr>job_status := st, completed_at := Some (now conn)\<rparr>)
      else
        sql_update conn sid
          (\<lambda>j. j\<lparr>job_status := st, progress := or_zero prog\<rparr>))"

text \<open>\<^verbatim>\<open>save_scan_result\<close>, lines 82-89: one \<^verbatim>\<open>INSERT\<close> into \<^verbatim>\<open>scan_results\<close>.\<close>

definition save_scan_result ::
  "db \<Rightarrow> string \<Rightarrow> string \<Rightarrow> check_status \<Rightarrow> pyval \<Rightarrow> int \<Rightarrow> severity \<Rightarrow> db" where
  "save_scan_result conn sid ctype st d f sev =
     conn\<lparr>scan_results := scan_results conn @
       [\<lparr>scan_id = sid, check_type = ctype, row_status = st, row_data = d,
         row_findings = f, row_severity = sev\<rparr>]\<rparr>"

text \<open>
  \<^verbatim>\<open>get_queued_scans\<close>, lines 38-49:
  \<^verbatim>\<open>SELECT id, target_id, url, checks, organization_id FROM scan_jobs
  WHERE status = 'queued' ORDER BY created_at ASC LIMIT 1 FOR UPDATE SKIP LOCKED\<close>.
  The rows that pass the filter are the queued rows that no other transaction has
  locked; \<open>sort_key\<close> is a stable sort, so among rows with equal \<^verbatim>\<open>created_at\<close>
  (where SQL leaves the order open) the model takes the first in table order.
\<close>

type_synonym scan_data = "string \<times> string \<times> string option \<times> string list \<times> string"

definition claimable :: "db \<Rightarrow> string \<times> scan_job \<Rightarrow> bool" where
  "claimable conn r = (job_status (snd r) = Queued \<and> fst r \<notin> locked conn)"

definition get_queued_scans :: "db \<Rightarrow> scan_data option" where
  "get_queued_scans conn =
     (case sort_key (\<lambda>r. created_at (snd r)) (filter (claimable conn) (scan_jobs conn)) of
        [] \<Rightarrow> None
      | r # _ \<Rightarrow>
          Some (fst r, target_id (snd r), url (snd r), checks (snd r), organization_id (snd r)))"

section \<open>Python arithmetic: the progress percentage\<close>

text \<open>
  Both workers compute \<^verbatim>\<open>int((completed / total) * 100)\<close>. In Python 3 the
  quotient of two integers is a double (IEEE 754 binary64), the correctly rounded
  value of the exact quotient; the product with 100 is rounded again; \<^verbatim>\<open>int\<close>
  truncates towards zero. A double is modelled by the rational it denotes.
  \<open>round_double\<close> rounds a rational to the nearest double, ties to the even
  significand, with the gradual underflow of binary64; overflow is not modelled (no
  value here exceeds 100).
\<close>

definition float_exponent :: "rat \<Rightarrow> int" where
  "float_exponent x =
     (let (p, q) = quotient_of x; e = bitlen p - bitlen q
      in if 2 powi e \<le> x then e else e - 1)"

definition round_half_even :: "rat \<Rightarrow> int" where
  "round_half_even x =
     (let f = \<lfloor>x\<rfloor>; d = x - of_int f
      in if d < 1 / 2 then f else if 1 / 2 < d then f + 1 else if even f then f else f + 1)"

definition round_double :: "rat \<Rightarrow> rat" where
  "round_double x =
     (if x = 0 then 0
      else let e = max (float_exponent \<bar>x\<bar>) (- 1022); u = 2 powi (e - 52)
           in of_int (round_half_even (x / u)) * u)"

text \<open>
  \<^verbatim>\<open>a / b\<close> on integers. Its only callers divide by the length of a list inside
  the loop over that list, so \<open>b\<close> is at least 1 and \<^verbatim>\<open>ZeroDivisionError\<close> cannot
  arise there.
\<close>

definition py_truediv :: "int \<Rightarrow> int \<Rightarrow> rat" where
  "py_truediv a b = round_double (of_int a / of_int b)"

definition py_float_mul :: "rat \<Rightarrow> rat \<Rightarrow> rat" where
  "py_float_mul x y = round_double (x * y)"

definition py_int :: "rat \<Rightarrow> int" where
  "py_int x = (if 0 \<le> x then \<lfloor>x\<rfloor> else \<lceil>x\<rceil>)"

text \<open>\<^verbatim>\<open>int((completed / total_checks) * 100)\<close>.\<close>

definition progress_percent :: "nat \<Rightarrow> nat \<Rightarrow> int" where
  "progress_percent completed total_checks =
     py_int (py_float_mul (py_truediv (int completed) (int total_checks)) 100)"

section \<open>The checks as the workers see them\<close>

text \<open>
  A check takes the target and the configuration dictionary and returns its result
  or raises. What a check returns depends on the outside world at the time of the
  call (the network, the installed tools); \<open>'w\<close> is the state of that world, and a
  worker is given the world of each call by its position in the check list.
  \<open>checks_pkg\<close> is the package \<^verbatim>\<open>checks\<close>: one function per module. The
  workers are modelled for arbitrary check functions, raising ones included.
\<close>

type_synonym config = "string \<rightharpoonup> pyval"

type_synonym 'w check_func = "'w \<Rightarrow> string \<Rightarrow> config \<Rightarrow> exn + check_result"

record 'w checks_pkg =
  ping :: "'w check_func"
  portscan :: "'w check_func"
  headers :: "'w check_func"
  ssl :: "'w check_func"
  dns :: "'w check_func"
  bruteforce :: "'w check_func"

text \<open>
  The dictionary from check names to functions: \<^verbatim>\<open>check_map\<close> of
  \<^verbatim>\<open>execute_check\<close> (scan\_worker.py 94-101), and the same dictionary
  \<^verbatim>\<open>check_functions\<close> of \<^verbatim>\<open>execute_scan\<close> (tasks.py 60-67).
\<close>

definition check_map :: "'w checks_pkg \<Rightarrow> string \<rightharpoonup> 'w check_func" where
  "check_map cs =
     map_of [(''ping'', ping cs), (''portscan'', portscan cs), (''headers'', headers cs),
             (''ssl'', ssl cs), (''dns'', dns cs), (''bruteforce'', bruteforce cs)]"

section \<open>scan\_worker.py: executing a claimed job\<close>

text \<open>\<^verbatim>\<open>execute_check(check_name, target)\<close>, lines 92-121. The check is called with the
  empty configuration \<^verbatim>\<open>{}\<close>.\<close>

definition execute_check :: "'w checks_pkg \<Rightarrow> 'w \<Rightarrow> string \<Rightarrow> string \<Rightarrow> check_result" where
  "execute_check cs w check_name target =
     (case check_map cs check_name of
        None \<Rightarrow>
          \<lparr>status = Error,
           data = PDict [(''error'', PStr (''Unknown check: '' @ check_name))],
           findings = 0, severity = Info\<rparr>
      | Some check_func \<Rightarrow>
          (case check_func w target Map.empty of
             Inr result \<Rightarrow> result
           | Inl e \<Rightarrow>
               \<lparr>status = Error, data = PDict [(''error'', PStr (str_of_exn e))],
                findings = 0, severity = Info\<rparr>))"

text \<open>
  The loop of \<^verbatim>\<open>process_scan\<close>, lines 147-165, from index \<open>i\<close> on. It returns the
  state of the store after each commit, in order: for every check the state after
  \<^verbatim>\<open>save_scan_result\<close> and the state after the progress update.
\<close>

fun run_checks ::
  "'w checks_pkg \<Rightarrow> (nat \<Rightarrow> 'w) \<Rightarrow> string \<Rightarrow> string \<Rightarrow> nat \<Rightarrow> nat \<Rightarrow> string list \<Rightarrow> db \<Rightarrow> db list"
where
  "run_checks cs w sid target total_checks i [] conn = []"
| "run_checks cs w sid target total_checks i (check_name # rest) conn =
     (let result = execute_check cs (w i) check_name target;
          conn1 = save_scan_result conn sid check_name
                    (status result) (data result) (findings result) (severity result);
          conn2 = update_scan_status conn1 sid Running
                    (Some (progress_percent (i + 1) total_checks))
      in conn1 # conn2 # run_checks cs w sid target total_checks (i + 1) rest conn2)"

text \<open>
  \<^verbatim>\<open>process_scan(conn, scan_data)\<close>, lines 124-169, as the list of the states after
  each commit. A \<^verbatim>\<open>url\<close> that is \<^verbatim>\<open>None\<close> or empty is falsy; then the target is
  looked up in \<^verbatim>\<open>targets\<close>.
\<close>

definition resolve_target :: "db \<Rightarrow> string \<Rightarrow> string option \<Rightarrow> string option" where
  "resolve_target conn tid u =
     (case u of
        Some (c # cs) \<Rightarrow> Some (c # cs)
      | _ \<Rightarrow> targets conn tid)"

definition process_scan_commits ::
  "'w checks_pkg \<Rightarrow> (nat \<Rightarrow> 'w) \<Rightarrow> db \<Rightarrow> scan_data \<Rightarrow> db list" where
  "process_scan_commits cs w conn sd =
     (case sd of (sid, tid, u, chks, org_id) \<Rightarrow>
        (case resolve_target conn tid u of
           None \<Rightarrow> [update_scan_status conn sid Failed None]
         | Some target \<Rightarrow>
             (let conn0 = update_scan_status conn sid Running (Some 0);
                  steps = run_checks cs w sid target (length chks) 0 chks conn0
              in conn0 # steps @ [update_scan_status (last (conn0 # steps)) sid Completed None])))"

text \<open>The store when \<^verbatim>\<open>process_scan\<close> returns.\<close>

definition process_scan :: "'w checks_pkg \<Rightarrow> (nat \<Rightarrow> 'w) \<Rightarrow> db \<Rightarrow> scan_data \<Rightarrow> db" where
  "process_scan cs w conn sd = last (process_scan_commits cs w conn sd)"

section \<open>tasks.py and database.py: the Celery task\<close>

text \<open>
  \<^verbatim>\<open>database.update_scan_status(scan_id, status, completed_at=None)\<close>. A
  \<^verbatim>\<open>datetime\<close> is always truthy, so the first branch is taken exactly when a
  completion time is passed.
\<close>

definition db_update_scan_status :: "db \<Rightarrow> string \<Rightarrow> job_status \<Rightarrow> nat option \<Rightarrow> db" where
  "db_update_scan_status conn sid st completed =
     (case completed of
        Some t \<Rightarrow>
          sql_update conn sid
            (\<lambda>j. j\<lparr>job_status := st, completed_at := Some t, updated_at := Some (now conn)\<rparr>)
      | None \<Rightarrow>
          if st = Running then
            sql_update conn sid
              (\<lambda>j. j\<lparr>job_status := st, started_at := Some (now conn),
                     updated_at := Some (now conn)\<rparr>)
          else
            sql_update conn sid (\<lambda>j. j\<lparr>job_status := st, updated_at := Some (now conn)\<rparr>))"

text \<open>\<^verbatim>\<open>database.update_scan_progress(scan_id, progress)\<close>.\<close>

definition update_scan_progress :: "db \<Rightarrow> string \<Rightarrow> int \<Rightarrow> db" where
  "update_scan_progress conn sid p =
     sql_update conn sid (\<lambda>j. j\<lparr>progress := p, updated_at := Some (now conn)\<rparr>)"

text \<open>\<^verbatim>\<open>database.store_scan_result\<close>.\<close>

definition store_scan_result ::
  "db \<Rightarrow> string \<Rightarrow> string \<Rightarrow> check_status \<Rightarrow> pyval \<Rightarrow> int \<Rightarrow> severity \<Rightarrow> db" where
  "store_scan_result conn sid ctype st d f sev =
     conn\<lparr>scan_results := scan_results conn @
       [\<lparr>scan_id = sid, check_type = ctype, row_status = st, row_data = d,
         row_findings = f, row_severity = sev\<rparr>]\<rparr>"

text \<open>
  The inner \<^verbatim>\<open>try\<close> of \<^verbatim>\<open>execute_scan\<close>, tasks.py 76-101, given what the call
  of the check returned or raised: a returned result is stored with the status
  \<^verbatim>\<open>'success'\<close>, whatever status the check reported; an exception is stored as
  \<^verbatim>\<open>'failed'\<close> with no findings.
\<close>

definition try_check :: "db \<Rightarrow> string \<Rightarrow> string \<Rightarrow> exn + check_result \<Rightarrow> db" where
  "try_check conn sid check_name outcome =
     (case outcome of
        Inr result \<Rightarrow>
          store_scan_result conn sid check_name Success
            (data result) (findings result) (severity result)
      | Inl e \<Rightarrow>
          store_scan_result conn sid check_name CheckFailed
            (PDict [(''error'', PStr (str_of_exn e))]) 0 Info)"

text \<open>
  The loop of \<^verbatim>\<open>execute_scan\<close>, tasks.py 69-106, from position \<open>i\<close> of the list
  on, with \<open>completed\<close> the value of \<^verbatim>\<open>completed_checks\<close>. It returns the states after
  each commit and the final value of \<^verbatim>\<open>completed_checks\<close>. A name that is not in
  \<^verbatim>\<open>check_functions\<close> is skipped by \<^verbatim>\<open>continue\<close>: nothing is stored and the
  counter and the progress stay as they are.
\<close>

fun task_checks ::
  "'w checks_pkg \<Rightarrow> (nat \<Rightarrow> 'w) \<Rightarrow> string \<Rightarrow> string \<Rightarrow> config \<Rightarrow> nat \<Rightarrow> nat \<Rightarrow> nat \<Rightarrow>
   string list \<Rightarrow> db \<Rightarrow> db list \<times> nat"
where
  "task_checks cs w sid target cfg total_checks i completed [] conn = ([], completed)"
| "task_checks cs w sid target cfg total_checks i completed (check_name # rest) conn =
     (case check_map cs check_name of
        None \<Rightarrow> task_checks cs w sid target cfg total_checks (i + 1) completed rest conn
      | Some check_func \<Rightarrow>
          (let conn1 = try_check conn sid check_name (check_func (w i) target cfg);
               conn2 = update_scan_progress conn1 sid
                         (progress_percent (completed + 1) total_checks);
               (steps, n) = task_checks cs w sid target cfg total_checks (i + 1)
                              (completed + 1) rest conn2
           in (conn1 # conn2 # steps, n)))"

text \<open>The dictionary that \<^verbatim>\<open>execute_scan\<close> returns.\<close>

record scan_summary =
  summary_scan_id :: string
  summary_status :: job_status
  checks_completed :: nat
  checks_total :: nat

text \<open>
  \<^verbatim>\<open>execute_scan(self, scan_id, target, checks, config)\<close>, tasks.py 39-124: the
  states after each commit and the returned summary. \<open>utcnow\<close> is the worker's clock at
  the end (\<^verbatim>\<open>datetime.utcnow()\<close>). With a store that does not fail, nothing in the
  outer \<^verbatim>\<open>try\<close> raises, so the outer handler is not reached.
\<close>

definition execute_scan ::
  "'w checks_pkg \<Rightarrow> (nat \<Rightarrow> 'w) \<Rightarrow> nat \<Rightarrow> db \<Rightarrow> string \<Rightarrow> string \<Rightarrow> string list \<Rightarrow> config \<Rightarrow>
   db list \<times> scan_summary" where
  "execute_scan cs w utcnow conn sid target chks cfg =
     (let conn0 = db_update_scan_status conn sid Running None;
          conn1 = update_scan_progress conn0 sid 0;
          (steps, completed) = task_checks cs w sid target cfg (length chks) 0 0 chks conn1;
          conn2 = db_update_scan_status (last (conn1 # steps)) sid Completed (Some utcnow);
          conn3 = update_scan_progress conn2 sid 100
      in (conn0 # conn1 # steps @ [conn2, conn3],
          \<lparr>summary_scan_id = sid, summary_status = Completed,
           checks_completed = completed, checks_total = length chks\<rparr>))"

section \<open>The checks\<close>

subsection \<open>Python strings\<close>

text \<open>
  Strings are lists of characters, and a character of the model is a code point below
  256. On that range whitespace (\<^verbatim>\<open>str.isspace\<close>, which \<^verbatim>\<open>strip()\<close> and
  \<^verbatim>\<open>split()\<close> use) and letter case (\<^verbatim>\<open>str.lower\<close>) are those of Python: the
  whitespace characters are U+0009 to U+000D, U+001C to U+0020, U+0085 and U+00A0, and
  the upper-case letters are A to Z and U+00C0 to U+00DE without U+00D7. A Python
  string can hold code points from 256 on, among them further whitespace (U+1680,
  U+2000 to U+200A, U+2028, U+2029, U+202F, U+205F, U+3000) and letters that
  \<^verbatim>\<open>lower()\<close> maps into the ASCII range (U+212A to \<open>k\<close>); text with such characters
  is outside the model.
\<close>

definition newline :: char where
  "newline = CHR 0x0A"

definition backslash :: string where
  "backslash = [CHR 0x5C]"

definition is_space :: "char \<Rightarrow> bool" where
  "is_space c =
     (c \<in> set [CHR 0x09, CHR 0x0A, CHR 0x0B, CHR 0x0C, CHR 0x0D,
                CHR 0x1C, CHR 0x1D, CHR 0x1E, CHR 0x1F, CHR 0x20,
                CHR 0x85, CHR 0xA0])"

text \<open>\<^verbatim>\<open>s.strip()\<close>\<close>

definition strip :: "string \<Rightarrow> string" where
  "strip s = rev (dropWhile is_space (rev (dropWhile is_space s)))"

text \<open>\<^verbatim>\<open>s.lower()\<close>\<close>

definition latin1_upper :: string where
  "latin1_upper =
     [CHR 0xC0, CHR 0xC1, CHR 0xC2, CHR 0xC3, CHR 0xC4, CHR 0xC5, CHR 0xC6, CHR 0xC7,
      CHR 0xC8, CHR 0xC9, CHR 0xCA, CHR 0xCB, CHR 0xCC, CHR 0xCD, CHR 0xCE, CHR 0xCF,
      CHR 0xD0, CHR 0xD1, CHR 0xD2, CHR 0xD3, CHR 0xD4, CHR 0xD5, CHR 0xD6, CHR 0xD8,
      CHR 0xD9, CHR 0xDA, CHR 0xDB, CHR 0xDC, CHR 0xDD, CHR 0xDE]"

definition latin1_lower :: string where
  "latin1_lower =
     [CHR 0xE0, CHR 0xE1, CHR 0xE2, CHR 0xE3, CHR 0xE4, CHR 0xE5, CHR 0xE6, CHR 0xE7,
      CHR 0xE8, CHR 0xE9, CHR 0xEA, CHR 0xEB, CHR 0xEC, CHR 0xED, CHR 0xEE, CHR 0xEF,
      CHR 0xF0, CHR 0xF1, CHR 0xF2, CHR 0xF3, CHR 0xF4, CHR 0xF5, CHR 0xF6, CHR 0xF8,
      CHR 0xF9, CHR 0xFA, CHR 0xFB, CHR 0xFC, CHR 0xFD, CHR 0xFE]"

definition lower_char :: "char \<Rightarrow> char" where
  "lower_char c =
     (case map_of (zip (''ABCDEFGHIJKLMNOPQRSTUVWXYZ'' @ latin1_upper)
                       (''abcdefghijklmnopqrstuvwxyz'' @ latin1_lower)) c of
        Some l \<Rightarrow> l
      | None \<Rightarrow> c)"

definition lower :: "string \<Rightarrow> string" where
  "lower s = map lower_char s"

text \<open>\<^verbatim>\<open>s.startswith(p)\<close>\<close>

definition startswith :: "string \<Rightarrow> string \<Rightarrow> bool" where
  "startswith s p = (take (length p) s = p)"

text \<open>\<^verbatim>\<open>sub in s\<close>\<close>

fun contains :: "string \<Rightarrow> string \<Rightarrow> bool" where
  "contains [] sub = (sub = [])"
| "contains (c # s) sub = (startswith (c # s) sub \<or> contains s sub)"

text \<open>\<^verbatim>\<open>s.split(sep)\<close> for a separator of one character.\<close>

fun split_on :: "char \<Rightarrow> string \<Rightarrow> string list" where
  "split_on sep [] = [[]]"
| "split_on sep (c # s) =
     (if c = sep then [] # split_on sep s
      else (case split_on sep s of
              [] \<Rightarrow> [[c]]
            | w # ws \<Rightarrow> (c # w) # ws))"

text \<open>\<^verbatim>\<open>s.split()\<close>: the maximal runs of characters that are not whitespace.\<close>

fun split_ws :: "string \<Rightarrow> string \<Rightarrow> string list" where
  "split_ws cur [] = (if cur = [] then [] else [rev cur])"
| "split_ws cur (c # s) =
     (if is_space c then (if cur = [] then split_ws [] s else rev cur # split_ws [] s)
      else split_ws (c # cur) s)"

text \<open>\<^verbatim>\<open>s.replace(old, new)\<close> for a non-empty \<open>old\<close>.\<close>

function replace :: "string \<Rightarrow> string \<Rightarrow> string \<Rightarrow> string" where
  "replace [] old new = []"
| "replace (c # s) old new =
     (if old \<noteq> [] \<and> startswith (c # s) old
      then new @ replace (drop (length old) (c # s)) old new
      else c # replace s old new)"
  by pat_completeness auto
termination
  by (relation "measure (\<lambda>(s, old, new). length s)") auto

text \<open>\<^verbatim>\<open>sep.join(xs)\<close>\<close>

fun join :: "string \<Rightarrow> string list \<Rightarrow> string" where
  "join sep [] = []"
| "join sep [x] = x"
| "join sep (x # y # ys) = x @ sep @ join sep (y # ys)"

text \<open>\<^verbatim>\<open>os.path.basename(p)\<close>\<close>

definition basename :: "string \<Rightarrow> string" where
  "basename p = rev (takeWhile (\<lambda>c. c \<noteq> CHR ''/'') (rev p))"

text \<open>\<^verbatim>\<open>d[k] = v\<close> on a dictionary kept in insertion order.\<close>

fun dict_set :: "('k \<times> 'v) list \<Rightarrow> 'k \<Rightarrow> 'v \<Rightarrow> ('k \<times> 'v) list" where
  "dict_set [] k v = [(k, v)]"
| "dict_set ((k', v') # d) k v = (if k' = k then (k, v) # d else (k', v') # dict_set d k v)"

subsection \<open>The outside world of a check\<close>

text \<open>\<^verbatim>\<open>subprocess.CompletedProcess\<close>\<close>

record completed_process =
  returncode :: int
  stdout :: string
  stderr :: string

text \<open>An element of an XML tree (\<^verbatim>\<open>xml.etree.ElementTree\<close>): tag, attributes, children.\<close>

datatype xml = Element string "(string \<times> string) list" "xml list"

fun tag :: "xml \<Rightarrow> string" where
  "tag (Element t a cs) = t"

fun children :: "xml \<Rightarrow> xml list" where
  "children (Element t a cs) = cs"

text \<open>\<^verbatim>\<open>e.get(k)\<close>\<close>

fun xml_get :: "xml \<Rightarrow> string \<Rightarrow> string option" where
  "xml_get (Element t a cs) k = map_of a k"

text \<open>\<^verbatim>\<open>e.find(t)\<close>: the first child with that tag.\<close>

definition xml_find :: "xml \<Rightarrow> string \<Rightarrow> xml option" where
  "xml_find e t = List.find (\<lambda>c. tag c = t) (children e)"

text \<open>\<^verbatim>\<open>root.findall('.//' + t)\<close>: all descendants with that tag, in document order.\<close>

fun descendants :: "xml \<Rightarrow> xml list" where
  "descendants (Element t a cs) = concat (map (\<lambda>c. c # descendants c) cs)"

definition findall :: "xml \<Rightarrow> string \<Rightarrow> xml list" where
  "findall doc t = filter (\<lambda>e. tag e = t) (descendants doc)"

text \<open>
  What the system and library calls of a check return at the time of one call of the
  check. These calls are not code of the repository; each is a parameter:
  \<^item> \<open>is_windows\<close>: \<^verbatim>\<open>platform.system().lower() == 'windows'\<close>;
  \<^item> \<open>subprocess_run cmd timeout\<close>: \<^verbatim>\<open>subprocess.run(cmd, capture_output=True,
    text=True, timeout=timeout)\<close>, the completed process or the exception raised
    (\<^verbatim>\<open>TimeoutExpired\<close>, \<^verbatim>\<open>FileNotFoundError\<close> for a missing executable, others);
  \<^item> \<open>subprocess_popen cmd\<close>: \<^verbatim>\<open>subprocess.Popen(cmd, stdout=subprocess.PIPE)\<close>;
  \<^item> \<open>re_search pattern s\<close>: group 1 of \<^verbatim>\<open>re.search(pattern, s)\<close>, if it matches;
  \<^item> \<open>float_of_str\<close>, \<open>int_of_str\<close>: \<^verbatim>\<open>float(s)\<close> and \<^verbatim>\<open>int(s)\<close>, which raise on
    text that is no number (\<^verbatim>\<open>int(None)\<close> raises too);
  \<^item> \<open>et_fromstring\<close>: \<^verbatim>\<open>ET.fromstring(s)\<close>, which raises \<^verbatim>\<open>ET.ParseError\<close>;
  \<^item> \<open>path_exists\<close>: \<^verbatim>\<open>os.path.exists(p)\<close>; \<open>write_file p s\<close>: writing \<open>s\<close> to
    the file \<open>p\<close>.
\<close>

record env =
  is_windows :: bool
  subprocess_run :: "string list \<Rightarrow> nat \<Rightarrow> exn + completed_process"
  subprocess_popen :: "string list \<Rightarrow> exn + unit"
  re_search :: "string \<Rightarrow> string \<Rightarrow> string option"
  float_of_str :: "string \<Rightarrow> exn + rat"
  int_of_str :: "string option \<Rightarrow> exn + int"
  et_fromstring :: "string \<Rightarrow> exn + xml"
  path_exists :: "pyval \<Rightarrow> exn + bool"
  write_file :: "string \<Rightarrow> string \<Rightarrow> exn + unit"

text \<open>Sequencing inside a \<^verbatim>\<open>try\<close> block: an exception ends the block.\<close>

definition and_then :: "exn + 'a \<Rightarrow> ('a \<Rightarrow> exn + 'b) \<Rightarrow> exn + 'b" where
  "and_then m f = (case m of Inl e \<Rightarrow> Inl e | Inr v \<Rightarrow> f v)"

text \<open>The result every handler builds: status \<^verbatim>\<open>failed\<close> with an error message.\<close>

definition failed_result :: "string \<Rightarrow> int \<Rightarrow> severity \<Rightarrow> check_result" where
  "failed_result msg f sev =
     \<lparr>status = CheckFailed, data = PDict [(''error'', PStr msg)], findings = f, severity = sev\<rparr>"

subsection \<open>checks/ping.py\<close>

text \<open>The body of the \<^verbatim>\<open>try\<close>, lines 25-79.\<close>

definition ping_try :: "env \<Rightarrow> string \<Rightarrow> exn + check_result" where
  "ping_try env target =
     (let param = (if is_windows env then ''-n'' else ''-c'');
          command = [''ping'', param, ''4'', target]
      in and_then (subprocess_run env command 10) (\<lambda>result.
           let output = stdout result in
           if returncode result = 0 then
             (let time_match =
                    (if is_windows env
                     then re_search env (''Average = ('' @ backslash @ ''d+)ms'') output
                     else (case re_search env (''avg = (['' @ backslash @ ''d.]+)'') output of
                             Some g \<Rightarrow> Some g
                           | None \<Rightarrow> re_search env (''avg/(['' @ backslash @ ''d.]+)'') output));
                  loss_match =
                    (if is_windows env
                     then re_search env
                            (backslash @ ''(('' @ backslash @ ''d+)% loss'' @ backslash @ '')'')
                            output
                     else re_search env (''('' @ backslash @ ''d+)% packet loss'') output)
              in and_then
                   (case time_match of
                      None \<Rightarrow> Inr PNone
                    | Some g \<Rightarrow> and_then (float_of_str env g) (\<lambda>x. Inr (PFloat x)))
                   (\<lambda>response_time.
                 and_then
                   (case loss_match of
                      None \<Rightarrow> Inr 0
                    | Some g \<Rightarrow> int_of_str env (Some g))
                   (\<lambda>packet_loss.
                 Inr \<lparr>status = Success,
                      data = PDict [(''reachable'', PBool True),
                                    (''response_time_ms'', response_time),
                                    (''packet_loss_percent'', PInt packet_loss),
                                    (''raw_output'', PStr output)],
                      findings = 0, severity = Info\<rparr>)))
           else
             Inr \<lparr>status = Success,
                  data = PDict [(''reachable'', PBool False),
                                (''error'', PStr ''Target is not reachable''),
                                (''raw_output'', PStr output)],
                  findings = 1, severity = High\<rparr>))"

text \<open>\<^verbatim>\<open>ping_check(target, config)\<close> with its handlers, lines 81-96.\<close>

definition ping_check :: "env \<Rightarrow> string \<Rightarrow> config \<Rightarrow> exn + check_result" where
  "ping_check env target cfg =
     (case ping_try env target of
        Inr r \<Rightarrow> Inr r
      | Inl (TimeoutExpired m) \<Rightarrow> Inr (failed_result ''Ping check timed out'' 1 Medium)
      | Inl e \<Rightarrow> Inr (failed_result (str_of_exn e) 0 Info))"

subsection \<open>checks/headers.py\<close>

definition SECURITY_HEADERS :: "string list" where
  "SECURITY_HEADERS =
     [''Strict-Transport-Security'', ''Content-Security-Policy'', ''X-Frame-Options'',
      ''X-Content-Type-Options'', ''X-XSS-Protection'', ''Referrer-Policy'',
      ''Permissions-Policy'']"

text \<open>Lines 60-63: the dictionary of the header lines, a later line replacing an earlier
  one of the same name.\<close>

definition parse_headers :: "string \<Rightarrow> (string \<times> string) list" where
  "parse_headers out =
     foldl (\<lambda>hs line.
              if CHR '':'' \<in> set line
              then dict_set hs (strip (takeWhile (\<lambda>c. c \<noteq> CHR '':'') line))
                              (strip (tl (dropWhile (\<lambda>c. c \<noteq> CHR '':'') line)))
              else hs)
       [] (split_on newline out)"

text \<open>Lines 70-78: the severity of a number of missing headers.\<close>

definition headers_severity :: "int \<Rightarrow> severity" where
  "headers_severity findings_count =
     (if findings_count \<ge> 5 then High
      else if findings_count \<ge> 3 then Medium
      else if findings_count > 0 then Low
      else Info)"

text \<open>\<^verbatim>\<open>https://\<close> is put in front of a target that names no scheme.\<close>

definition with_scheme :: "string \<Rightarrow> string" where
  "with_scheme target =
     (if \<not> (startswith target ''http://'' \<or> startswith target ''https://'')
      then ''https://'' @ target else target)"

text \<open>The body of the \<^verbatim>\<open>try\<close>, lines 33-89.\<close>

definition headers_try :: "env \<Rightarrow> string \<Rightarrow> exn + check_result" where
  "headers_try env target =
     (let command = [''curl'', ''-I'', ''-s'', ''-L'', ''--max-time'', ''10'', with_scheme target]
      in and_then (subprocess_run env command 15) (\<lambda>result.
           if returncode result \<noteq> 0 then
             Inr (failed_result ''Failed to fetch headers'' 0 Info)
           else
             (let hs = parse_headers (stdout result);
                  missing_headers = filter (\<lambda>h. map_of hs h = None) SECURITY_HEADERS;
                  findings_count = int (length missing_headers)
              in Inr \<lparr>status = Success,
                      data = PDict [(''headers_present'', PDict (map (\<lambda>(k, v). (k, PStr v)) hs)),
                                    (''missing_headers'', PList (map PStr missing_headers)),
                                    (''server'',
                                       PStr (case map_of hs ''Server'' of
                                               None \<Rightarrow> ''unknown'' | Some v \<Rightarrow> v))],
                      findings = findings_count,
                      severity = headers_severity findings_count\<rparr>)))"

definition headers_check :: "env \<Rightarrow> string \<Rightarrow> config \<Rightarrow> exn + check_result" where
  "headers_check env target cfg =
     (case headers_try env target of
        Inr r \<Rightarrow> Inr r
      | Inl (TimeoutExpired m) \<Rightarrow> Inr (failed_result ''Request timed out'' 0 Info)
      | Inl e \<Rightarrow> Inr (failed_result (str_of_exn e) 0 Info))"

subsection \<open>checks/ssl.py\<close>

text \<open>\<^verbatim>\<open>target.replace('https://', '').replace('http://', '').split('/')[0]\<close>\<close>

definition bare_host :: "string \<Rightarrow> string" where
  "bare_host target =
     takeWhile (\<lambda>c. c \<noteq> CHR ''/'') (replace (replace target ''https://'' []) ''http://'' [])"

text \<open>
  The body of the \<^verbatim>\<open>try\<close>, lines 24-96. The search for \<^verbatim>\<open>notBefore\<close> (line 72) has
  no effect and is left out. Of the two assignments to \<^verbatim>\<open>severity\<close> the later one
  wins.
\<close>

definition ssl_try :: "env \<Rightarrow> string \<Rightarrow> exn + check_result" where
  "ssl_try env target0 =
     (let target = bare_host target0;
          command = [''openssl'', ''s_client'', ''-connect'', target @ '':443'',
                     ''-servername'', target, ''-showcerts'']
      in and_then (subprocess_popen env [''echo'', ''Q'']) (\<lambda>echo_process.
         and_then (subprocess_run env command 10) (\<lambda>result.
           if returncode result \<noteq> 0 \<and> stdout result = [] then
             Inr (failed_result ''Failed to connect to SSL/TLS server'' 1 High)
           else
             (let output = stdout result;
                  cert_data0 = [];
                  cert_data1 = (case re_search env ''issuer=(.+)'' output of
                                  Some g \<Rightarrow> dict_set cert_data0 ''issuer'' (PStr (strip g))
                                | None \<Rightarrow> cert_data0);
                  cert_data2 = (case re_search env ''subject=(.+)'' output of
                                  Some g \<Rightarrow> dict_set cert_data1 ''subject'' (PStr (strip g))
                                | None \<Rightarrow> cert_data1);
                  cert_data3 = (case re_search env ''notAfter=(.+)'' output of
                                  Some g \<Rightarrow> dict_set cert_data2 ''expires'' (PStr (strip g))
                                | None \<Rightarrow> cert_data2);
                  verify_error = contains (lower output) ''verify error'';
                  self_signed = contains (lower output) ''self signed'';
                  issues = (if verify_error then [''Certificate verification error''] else [])
                           @ (if self_signed then [''Self-signed certificate''] else []);
                  severity0 = Info;
                  severity1 = (if verify_error then High else severity0);
                  severity2 = (if self_signed then Medium else severity1)
              in Inr \<lparr>status = Success,
                      data = PDict [(''certificate'', PDict cert_data3),
                                    (''issues'', PList (map PStr issues)),
                                    (''has_ssl'', PBool True)],
                      findings = int (length issues),
                      severity = severity2\<rparr>))))"

definition ssl_check :: "env \<Rightarrow> string \<Rightarrow> config \<Rightarrow> exn + check_result" where
  "ssl_check env target cfg =
     (case ssl_try env target of
        Inr r \<Rightarrow> Inr r
      | Inl (TimeoutExpired m) \<Rightarrow> Inr (failed_result ''SSL check timed out'' 0 Info)
      | Inl e \<Rightarrow> Inr (failed_result (str_of_exn e) 0 Info))"

subsection \<open>checks/portscan.py\<close>

text \<open>
  The loop of lines 55-68 over the \<^verbatim>\<open>port\<close> elements: the dictionaries of the open
  ports, or the exception of the first \<^verbatim>\<open>int(port_id)\<close> that raises.
\<close>

fun open_ports :: "env \<Rightarrow> xml list \<Rightarrow> exn + pyval list" where
  "open_ports env [] = Inr []"
| "open_ports env (port # rest) =
     (case xml_find port ''state'' of
        None \<Rightarrow> open_ports env rest
      | Some state \<Rightarrow>
          if xml_get state ''state'' = Some ''open'' then
            (let port_id = xml_get port ''portid'';
                 protocol = xml_get port ''protocol'';
                 service_name =
                   (case xml_find port ''service'' of
                      None \<Rightarrow> ''unknown''
                    | Some service \<Rightarrow>
                        (case xml_get service ''name'' of
                           None \<Rightarrow> ''unknown'' | Some n \<Rightarrow> n))
             in and_then (int_of_str env port_id) (\<lambda>p.
                and_then (open_ports env rest) (\<lambda>ports.
                  Inr (PDict [(''port'', PInt p),
                              (''protocol'', (case protocol of None \<Rightarrow> PNone | Some x \<Rightarrow> PStr x)),
                              (''service'', PStr service_name),
                              (''state'', PStr ''open'')] # ports))))
          else open_ports env rest)"

text \<open>Lines 70-77: the severity of a number of open ports.\<close>

definition portscan_severity :: "int \<Rightarrow> severity" where
  "portscan_severity findings_count =
     (if findings_count > 20 then High
      else if findings_count > 10 then Medium
      else Low)"

text \<open>The inner \<^verbatim>\<open>try\<close>, lines 51-97, which handles \<^verbatim>\<open>ET.ParseError\<close> only.\<close>

definition portscan_parse :: "env \<Rightarrow> string \<Rightarrow> exn + check_result" where
  "portscan_parse env out =
     (case and_then (et_fromstring env out) (\<lambda>doc.
             and_then (open_ports env (findall doc ''port'')) (\<lambda>ports.
               let findings_count = int (length ports)
               in Inr \<lparr>status = Success,
                       data = PDict [(''open_ports'', PList ports),
                                     (''total_open'', PInt findings_count),
                                     (''scan_completed'', PBool True)],
                       findings = findings_count,
                       severity = portscan_severity findings_count\<rparr>)) of
        Inl (ParseError m) \<Rightarrow> Inr (failed_result ''Failed to parse nmap output'' 0 Info)
      | other \<Rightarrow> other)"

text \<open>The body of the outer \<^verbatim>\<open>try\<close>, lines 23-97.\<close>

definition port_scan_try :: "env \<Rightarrow> string \<Rightarrow> exn + check_result" where
  "port_scan_try env target =
     (let command = [''nmap'', ''-p-'', ''--open'', ''-T4'', ''-oX'', ''-'', target]
      in and_then (subprocess_run env command 900) (\<lambda>result.
           if returncode result \<noteq> 0 then
             Inr \<lparr>status = CheckFailed,
                  data = PDict [(''error'', PStr ''nmap scan failed''),
                                (''stderr'', PStr (stderr result))],
                  findings = 0, severity = Info\<rparr>
           else portscan_parse env (stdout result)))"

definition port_scan_check :: "env \<Rightarrow> string \<Rightarrow> config \<Rightarrow> exn + check_result" where
  "port_scan_check env target cfg =
     (case port_scan_try env target of
        Inr r \<Rightarrow> Inr r
      | Inl (TimeoutExpired m) \<Rightarrow> Inr (failed_result ''Port scan timed out'' 0 Info)
      | Inl (FileNotFoundError m) \<Rightarrow> Inr (failed_result ''nmap not installed'' 0 Info)
      | Inl e \<Rightarrow> Inr (failed_result (str_of_exn e) 0 Info))"

subsection \<open>checks/dns.py\<close>

definition DNS_RECORD_TYPES :: "string list" where
  "DNS_RECORD_TYPES = [''A'', ''AAAA'', ''MX'', ''NS'', ''TXT'', ''SOA'', ''CNAME'']"

text \<open>
  One turn of the loop of lines 32-51 on \<open>(records, findings_count)\<close>. Its own handlers
  swallow every exception of the query.
\<close>

definition dns_query ::
  "env \<Rightarrow> string \<Rightarrow> (string \<times> pyval) list \<times> int \<Rightarrow> string \<Rightarrow> (string \<times> pyval) list \<times> int" where
  "dns_query env target acc record_type =
     (case subprocess_run env [''dig'', ''+short'', target, record_type] 5 of
        Inl e \<Rightarrow> acc
      | Inr result \<Rightarrow>
          if returncode result = 0 \<and> strip (stdout result) \<noteq> [] then
            (let record_values =
                   filter (\<lambda>l. l \<noteq> [])
                     (map strip (split_on newline (strip (stdout result))))
             in if record_values \<noteq> []
                then (dict_set (fst acc) record_type (PList (map PStr record_values)),
                      snd acc + int (length record_values))
                else acc)
          else acc)"

text \<open>Lines 54-69: the zone transfer test; every exception counts as not vulnerable.\<close>

definition zone_transfer :: "env \<Rightarrow> string \<Rightarrow> bool" where
  "zone_transfer env target =
     (case subprocess_run env [''dig'', ''axfr'', ''@'' @ target, target] 10 of
        Inl e \<Rightarrow> False
      | Inr result \<Rightarrow> returncode result = 0 \<and> \<not> contains (stdout result) ''Transfer failed'')"

text \<open>
  \<^verbatim>\<open>dns_check(target, config)\<close>. Nothing in the outer \<^verbatim>\<open>try\<close> raises outside the
  inner handlers, so the outer handler (lines 84-91) is never entered.
\<close>

definition dns_check :: "env \<Rightarrow> string \<Rightarrow> config \<Rightarrow> exn + check_result" where
  "dns_check env target0 cfg =
     (let target = bare_host target0;
          (records, count) = foldl (dns_query env target) ([], 0) DNS_RECORD_TYPES;
          zone_transfer_vulnerable = zone_transfer env target;
          findings_count = (if zone_transfer_vulnerable then count + 1 else count)
      in Inr \<lparr>status = Success,
              data = PDict [(''records'', PDict records),
                            (''zone_transfer_vulnerable'', PBool zone_transfer_vulnerable),
                            (''total_records'', PInt findings_count)],
              findings = findings_count,
              severity = (if zone_transfer_vulnerable then High else Info)\<rparr>)"

subsection \<open>checks/bruteforce.py\<close>

definition minimal_wordlist :: string where
  "minimal_wordlist =
     join [newline] [''admin'', ''api'', ''backup'', ''config'', ''dashboard'',
                     ''login'', ''test'', ''upload'', ''.git'', ''.env'']"

text \<open>Lines 60-69: the directories that the lines of the output name.\<close>

definition found_dirs_of :: "string \<Rightarrow> pyval list" where
  "found_dirs_of out =
     concat (map (\<lambda>line.
                    if strip line \<noteq> [] \<and> \<not> startswith line ''=''
                    then (case split_ws [] line of
                            p0 # p1 # ps \<Rightarrow> [PDict [(''path'', PStr p0), (''status'', PStr p1)]]
                          | _ \<Rightarrow> [])
                    else [])
               (split_on newline out))"

text \<open>Lines 71-77: the severity of a number of directories found.\<close>

definition bruteforce_severity :: "int \<Rightarrow> severity" where
  "bruteforce_severity findings_count =
     (if findings_count > 20 then Medium
      else if findings_count > 10 then Low
      else Info)"

text \<open>\<^verbatim>\<open>type(v).__name__\<close>\<close>

fun type_name :: "pyval \<Rightarrow> string" where
  "type_name PNone = ''NoneType''"
| "type_name (PBool b) = ''bool''"
| "type_name (PInt i) = ''int''"
| "type_name (PFloat x) = ''float''"
| "type_name (PStr s) = ''str''"
| "type_name (PList xs) = ''list''"
| "type_name (PDict d) = ''dict''"

text \<open>
  The body of the \<^verbatim>\<open>try\<close>. The word list is any value of the configuration; a
  value that is no string makes \<^verbatim>\<open>subprocess.run\<close> raise \<^verbatim>\<open>TypeError\<close>,
  whose message names the type of the value.
\<close>

definition bruteforce_try :: "env \<Rightarrow> string \<Rightarrow> config \<Rightarrow> exn + check_result" where
  "bruteforce_try env target0 cfg =
     (let target = with_scheme target0;
          wordlist0 = (case cfg ''custom_wordlist'' of
                         None \<Rightarrow> PStr ''/usr/share/wordlists/dirb/common.txt''
                       | Some v \<Rightarrow> v)
      in and_then (path_exists env wordlist0) (\<lambda>found.
         and_then
           (if \<not> found
            then and_then (write_file env ''/tmp/minimal_wordlist.txt'' minimal_wordlist)
                   (\<lambda>u. Inr (PStr ''/tmp/minimal_wordlist.txt''))
            else Inr wordlist0)
           (\<lambda>wordlist.
         case wordlist of
           PStr wl \<Rightarrow>
             and_then
               (subprocess_run env
                  [''gobuster'', ''dir'', ''-u'', target, ''-w'', wl, ''-t'', ''10'', ''-q'',
                   ''--no-error'', ''--timeout'', ''30s''] 300)
               (\<lambda>result.
                  let found_dirs = found_dirs_of (stdout result);
                      findings_count = int (length found_dirs)
                  in Inr \<lparr>status = Success,
                          data = PDict [(''directories_found'', PList found_dirs),
                                        (''total_found'', PInt findings_count),
                                        (''wordlist_used'', PStr (basename wl))],
                          findings = findings_count,
                          severity = bruteforce_severity findings_count\<rparr>)
         | other \<Rightarrow>
             Inl (OtherException
                    (''expected str, bytes or os.PathLike object, not '' @ type_name other)))))"

definition bruteforce_check :: "env \<Rightarrow> string \<Rightarrow> config \<Rightarrow> exn + check_result" where
  "bruteforce_check env target cfg =
     (case bruteforce_try env target cfg of
        Inr r \<Rightarrow> Inr r
      | Inl (TimeoutExpired m) \<Rightarrow> Inr (failed_result ''Brute-force scan timed out'' 0 Info)
      | Inl (FileNotFoundError m) \<Rightarrow> Inr (failed_result ''gobuster not installed'' 0 Info)
      | Inl e \<Rightarrow> Inr (failed_result (str_of_exn e) 0 Info))"

subsection \<open>The package\<close>

text \<open>\<^verbatim>\<open>checks/__init__.py\<close>: the six checks that both workers import.\<close>

definition checks_impl :: "env checks_pkg" where
  "checks_impl =
     \<lparr>ping = ping_check, portscan = port_scan_check, headers = headers_check,
      ssl = ssl_check, dns = dns_check, bruteforce = bruteforce_check\<rparr>"

section \<open>Notions used to state the properties\<close>

text \<open>The row that \<^verbatim>\<open>process_scan\<close> saves for a check and its result.\<close>

definition row_of :: "string \<Rightarrow> string \<Rightarrow> check_result \<Rightarrow> scan_result" where
  "row_of sid check_name r =
     \<lparr>scan_id = sid, check_type = check_name, row_status = status r, row_data = data r,
      row_findings = findings r, row_severity = severity r\<rparr>"

text \<open>The row that \<^verbatim>\<open>execute_scan\<close> stores for a check and what its call gave.\<close>

definition task_row :: "string \<Rightarrow> string \<Rightarrow> exn + check_result \<Rightarrow> scan_result" where
  "task_row sid check_name outcome =
     (case outcome of
        Inr r \<Rightarrow> \<lparr>scan_id = sid, check_type = check_name, row_status = Success,
                  row_data = data r, row_findings = findings r, row_severity = severity r\<rparr>
      | Inl e \<Rightarrow> \<lparr>scan_id = sid, check_type = check_name, row_status = CheckFailed,
                  row_data = PDict [(''error'', PStr (str_of_exn e))], row_findings = 0,
                  row_severity = Info\<rparr>)"

text \<open>A check name is known when the dictionary of checks has it.\<close>

definition known :: "'w checks_pkg \<Rightarrow> string \<Rightarrow> bool" where
  "known cs check_name = (check_map cs check_name \<noteq> None)"

text \<open>
  What the caller of a check sees of its outcome: nothing when the check raised, else
  the status, the findings count and the severity of the result.
\<close>

definition verdict :: "exn + check_result \<Rightarrow> (check_status \<times> int \<times> severity) option" where
  "verdict outcome =
     (case outcome of
        Inl e \<Rightarrow> None
      | Inr r \<Rightarrow> Some (status r, findings r, severity r))"

text \<open>\<^verbatim>\<open>isinstance(e, subprocess.TimeoutExpired)\<close>\<close>

definition is_timeout :: "exn \<Rightarrow> bool" where
  "is_timeout e = (case e of TimeoutExpired m \<Rightarrow> True | _ \<Rightarrow> False)"

text \<open>
  The command lines that the checks pass to \<^verbatim>\<open>subprocess.run\<close> (ping.py 27,
  headers.py 39, ssl.py 29-34, portscan.py 25-32, bruteforce.py 43-51), and the word
  list that the directory check takes from the configuration (bruteforce.py 29).
\<close>

definition ping_command :: "env \<Rightarrow> string \<Rightarrow> string list" where
  "ping_command env target = [''ping'', (if is_windows env then ''-n'' else ''-c''), ''4'', target]"

definition curl_command :: "string \<Rightarrow> string list" where
  "curl_command target =
     [''curl'', ''-I'', ''-s'', ''-L'', ''--max-time'', ''10'', with_scheme target]"

definition openssl_command :: "string \<Rightarrow> string list" where
  "openssl_command target =
     [''openssl'', ''s_client'', ''-connect'', bare_host target @ '':443'',
      ''-servername'', bare_host target, ''-showcerts'']"

definition nmap_command :: "string \<Rightarrow> string list" where
  "nmap_command target = [''nmap'', ''-p-'', ''--open'', ''-T4'', ''-oX'', ''-'', target]"

definition gobuster_command :: "string \<Rightarrow> string \<Rightarrow> string list" where
  "gobuster_command target wordlist =
     [''gobuster'', ''dir'', ''-u'', with_scheme target, ''-w'', wordlist, ''-t'', ''10'', ''-q'',
      ''--no-error'', ''--timeout'', ''30s'']"

definition configured_wordlist :: "config \<Rightarrow> pyval" where
  "configured_wordlist cfg =
     (case cfg ''custom_wordlist'' of
        None \<Rightarrow> PStr ''/usr/share/wordlists/dirb/common.txt''
      | Some v \<Rightarrow> v)"

text \<open>The progress of a job in a sequence of states of the store.\<close>

definition progress_log :: "string \<Rightarrow> db list \<Rightarrow> int list" where
  "progress_log sid states = List.map_filter (\<lambda>c. map_option progress (job_of c sid)) states"

text \<open>The status and progress of a job in a state of the store.\<close>

definition job_state :: "db \<Rightarrow> string \<Rightarrow> (job_status \<times> int) option" where
  "job_state conn sid = map_option (\<lambda>j. (job_status j, progress j)) (job_of conn sid)"

section \<open>Example data\<close>

text \<open>Concrete jobs, stores and worlds on which the theorems below are instantiated.\<close>

definition mk_job :: "nat \<Rightarrow> job_status \<Rightarrow> string option \<Rightarrow> string list \<Rightarrow> scan_job" where
  "mk_job t st u cs =
     \<lparr>target_id = ''t1'', url = u, checks = cs, organization_id = ''org'',
      job_status = st, progress = 0, created_at = t, started_at = None,
      completed_at = None, updated_at = None\<rparr>"

definition backlog :: db where
  "backlog =
     \<lparr>scan_jobs = [(''c'', mk_job 30 Queued None [''ping'']),
                   (''a'', mk_job 10 Queued (Some ''example.org'') [''ping'']),
                   (''b'', mk_job 20 Queued (Some ''example.org'')
                             [''ping'', ''headers'', ''unknown_check''])],
      scan_results = [], targets = Map.empty, locked = {}, now = 7\<rparr>"

text \<open>A world in which every external command runs into its timeout.\<close>

definition timeout_env :: env where
  "timeout_env =
     \<lparr>is_windows = False,
      subprocess_run = (\<lambda>cmd t. Inl (TimeoutExpired ''timed out'')),
      subprocess_popen = (\<lambda>cmd. Inr ()),
      re_search = (\<lambda>p s. None),
      float_of_str = (\<lambda>s. Inl (OtherException ''could not convert string to float'')),
      int_of_str = (\<lambda>s. Inl (OtherException ''invalid literal for int()'')),
      et_fromstring = (\<lambda>s. Inl (ParseError ''no element found'')),
      path_exists = (\<lambda>p. Inr True),
      write_file = (\<lambda>p s. Inr ())\<rparr>"

text \<open>A world in which every external command exits with code 1 and no output.\<close>

definition unreachable_env :: env where
  "unreachable_env =
     timeout_env\<lparr>subprocess_run :=
       (\<lambda>cmd t. Inr \<lparr>returncode = 1, stdout = [], stderr = []\<rparr>)\<rparr>"

text \<open>A world in which every external command exits with code 0 and no output.\<close>

definition quiet_env :: env where
  "quiet_env =
     timeout_env\<lparr>subprocess_run :=
       (\<lambda>cmd t. Inr \<lparr>returncode = 0, stdout = [], stderr = []\<rparr>)\<rparr>"

section \<open>Properties of the store\<close>

lemma map_of_sql_update:
  "map_of (map (\<lambda>(k, j). if k = sid then (k, f j) else (k, j)) xs) k' =
     (if k' = sid then map_option f (map_of xs k') else map_of xs k')"
  by (induction xs) auto

lemma job_of_sql_update:
  "job_of (sql_update conn sid f) k =
     (if k = sid then map_option f (job_of conn k) else job_of conn k)"
  by (simp add: job_of_def sql_update_def map_of_sql_update)

lemma sql_update_frame:
  "scan_results (sql_update conn sid f) = scan_results conn"
  "targets (sql_update conn sid f) = targets conn"
  "locked (sql_update conn sid f) = locked conn"
  "now (sql_update conn sid f) = now conn"
  "map fst (scan_jobs (sql_update conn sid f)) = map fst (scan_jobs conn)"
  by (simp_all add: sql_update_def case_prod_unfold comp_def)

text \<open>
  C10. Updating a job to \<open>Failed\<close> rewrites only the status and the completed-at column
  of that job's row: the row afterwards is the old row with these two columns set, so
  its progress is the old progress whatever progress argument was passed; every other
  row and every other table is untouched. The update to \<open>Completed\<close> sets progress to
  exactly 100.
\<close>

theorem failed_update_frame:
  assumes "job_of conn sid = Some j"
  shows "job_of (update_scan_status conn sid Failed p) sid =
           Some (j\<lparr>job_status := Failed, completed_at := Some (now conn)\<rparr>)
       \<and> map_option progress (job_of (update_scan_status conn sid Failed p) sid) = Some (progress j)
       \<and> (\<forall>k. k \<noteq> sid \<longrightarrow> job_of (update_scan_status conn sid Failed p) k = job_of conn k)
       \<and> scan_results (update_scan_status conn sid Failed p) = scan_results conn
       \<and> targets (update_scan_status conn sid Failed p) = targets conn
       \<and> map_option progress (job_of (update_scan_status conn sid Completed p) sid) = Some 100
       \<and> map_option job_status (job_of (update_scan_status conn sid Completed p) sid) = Some Completed"
  using assms by (simp add: update_scan_status_def job_of_sql_update sql_update_frame)

theorem failed_update_frame_witness:
  "job_of backlog ''a'' = Some (mk_job 10 Queued (Some ''example.org'') [''ping''])
   \<and> job_of (update_scan_status backlog ''a'' Failed (Some 55)) ''a'' =
       Some ((mk_job 10 Queued (Some ''example.org'') [''ping''])
               \<lparr>job_status := Failed, completed_at := Some 7\<rparr>)
   \<and> map_option progress (job_of (update_scan_status backlog ''a'' Failed (Some 55)) ''a'') = Some 0
   \<and> map_option progress (job_of (update_scan_status backlog ''a'' Completed (Some 55)) ''a'') = Some 100"
proof -
  have h: "job_of backlog ''a'' = Some (mk_job 10 Queued (Some ''example.org'') [''ping''])"
    by (simp add: job_of_def backlog_def)
  have p: "progress (mk_job 10 Queued (Some ''example.org'') [''ping'']) = 0"
    and n: "now backlog = 7"
    by (simp_all add: mk_job_def backlog_def)
  show ?thesis
    using h failed_update_frame [OF h, of "Some 55"] by (simp add: p n)
qed

subsection \<open>Claiming\<close>

lemma sort_key_head_least:
  assumes "sort_key f xs = r # rs"
  shows "r \<in> set xs \<and> (\<forall>x\<in>set xs. f r \<le> f x)"
proof -
  have "set (r # rs) = set xs"
    using assms set_sort [of f xs] by simp
  moreover have "sorted (map f (r # rs))"
    using assms sorted_sort_key [of f xs] by simp
  ultimately show ?thesis
    by auto
qed

text \<open>What the query returns, by the rows it can take.\<close>

lemma get_queued_scans_least:
  "(get_queued_scans conn = None \<longleftrightarrow> \<not> (\<exists>r \<in> set (scan_jobs conn). claimable conn r))
   \<and> (\<forall>sid tid u cs oid. get_queued_scans conn = Some (sid, tid, u, cs, oid) \<longrightarrow>
        (\<exists>j. (sid, j) \<in> set (scan_jobs conn) \<and> job_status j = Queued \<and> sid \<notin> locked conn
            \<and> tid = target_id j \<and> u = url j \<and> cs = checks j \<and> oid = organization_id j
            \<and> (\<forall>r \<in> set (scan_jobs conn).
                  job_status (snd r) = Queued \<and> fst r \<notin> locked conn \<longrightarrow>
                  created_at j \<le> created_at (snd r))))"
proof (cases "sort_key (\<lambda>r. created_at (snd r)) (filter (claimable conn) (scan_jobs conn))")
  case Nil
  then have "set (filter (claimable conn) (scan_jobs conn)) = {}"
    using set_sort [of "\<lambda>r. created_at (snd r)" "filter (claimable conn) (scan_jobs conn)"]
    by simp
  then have "\<not> (\<exists>r \<in> set (scan_jobs conn). claimable conn r)"
    by auto
  with Nil show ?thesis
    by (simp add: get_queued_scans_def)
next
  case (Cons r rs)
  from sort_key_head_least [OF Cons]
  have in_set: "r \<in> set (scan_jobs conn)" and ok: "claimable conn r"
    and least: "\<forall>x \<in> set (scan_jobs conn). claimable conn x \<longrightarrow>
                  created_at (snd r) \<le> created_at (snd x)"
    by auto
  have res: "get_queued_scans conn =
      Some (fst r, target_id (snd r), url (snd r), checks (snd r), organization_id (snd r))"
    using Cons by (simp add: get_queued_scans_def)
  have "(fst r, snd r) \<in> set (scan_jobs conn)"
    using in_set by simp
  with ok least res show ?thesis
    unfolding claimable_def by (intro conjI; force)
qed

text \<open>
  C8 (as amended). A claim returns a row of the table that is queued and not locked by
  another transaction, and whose creation time is least among all queued rows that are
  not locked; it returns nothing exactly when there is no such row. When no row is
  locked, the returned job is the oldest of all queued jobs.
\<close>

theorem claim_oldest_unlocked:
  "(get_queued_scans conn = None \<longleftrightarrow> \<not> (\<exists>r \<in> set (scan_jobs conn). claimable conn r))
   \<and> (\<forall>sid tid u cs oid. get_queued_scans conn = Some (sid, tid, u, cs, oid) \<longrightarrow>
        (\<exists>j. (sid, j) \<in> set (scan_jobs conn) \<and> job_status j = Queued \<and> sid \<notin> locked conn
            \<and> tid = target_id j \<and> u = url j \<and> cs = checks j \<and> oid = organization_id j
            \<and> (\<forall>r \<in> set (scan_jobs conn).
                  job_status (snd r) = Queued \<and> fst r \<notin> locked conn \<longrightarrow>
                  created_at j \<le> created_at (snd r))))
   \<and> (locked conn = {} \<longrightarrow>
        (\<forall>sid tid u cs oid. get_queued_scans conn = Some (sid, tid, u, cs, oid) \<longrightarrow>
          (\<exists>j. (sid, j) \<in> set (scan_jobs conn) \<and> job_status j = Queued
              \<and> (\<forall>r \<in> set (scan_jobs conn).
                    job_status (snd r) = Queued \<longrightarrow> created_at j \<le> created_at (snd r)))))"
proof (intro conjI)
  show "get_queued_scans conn = None \<longleftrightarrow> \<not> (\<exists>r \<in> set (scan_jobs conn). claimable conn r)"
    using get_queued_scans_least [of conn] by blast
  show "\<forall>sid tid u cs oid. get_queued_scans conn = Some (sid, tid, u, cs, oid) \<longrightarrow>
        (\<exists>j. (sid, j) \<in> set (scan_jobs conn) \<and> job_status j = Queued \<and> sid \<notin> locked conn
            \<and> tid = target_id j \<and> u = url j \<and> cs = checks j \<and> oid = organization_id j
            \<and> (\<forall>r \<in> set (scan_jobs conn).
                  job_status (snd r) = Queued \<and> fst r \<notin> locked conn \<longrightarrow>
                  created_at j \<le> created_at (snd r)))"
    using get_queued_scans_least [of conn] by blast
  show "locked conn = {} \<longrightarrow>
        (\<forall>sid tid u cs oid. get_queued_scans conn = Some (sid, tid, u, cs, oid) \<longrightarrow>
          (\<exists>j. (sid, j) \<in> set (scan_jobs conn) \<and> job_status j = Queued
              \<and> (\<forall>r \<in> set (scan_jobs conn).
                    job_status (snd r) = Queued \<longrightarrow> created_at j \<le> created_at (snd r))))"
  proof (intro impI allI)
    fix sid tid u cs oid
    assume l: "locked conn = {}" and g: "get_queued_scans conn = Some (sid, tid, u, cs, oid)"
    from get_queued_scans_least [of conn] g
    obtain j where "(sid, j) \<in> set (scan_jobs conn)" "job_status j = Queued"
      "\<forall>r \<in> set (scan_jobs conn).
          job_status (snd r) = Queued \<and> fst r \<notin> locked conn \<longrightarrow>
          created_at j \<le> created_at (snd r)"
      by blast
    then show "\<exists>j. (sid, j) \<in> set (scan_jobs conn) \<and> job_status j = Queued
              \<and> (\<forall>r \<in> set (scan_jobs conn).
                    job_status (snd r) = Queued \<longrightarrow> created_at j \<le> created_at (snd r))"
      using l by auto
  qed
qed

theorem claim_oldest_unlocked_witness:
  "get_queued_scans backlog = Some (''a'', ''t1'', Some ''example.org'', [''ping''], ''org'')
   \<and> (\<exists>j. (''a'', j) \<in> set (scan_jobs backlog) \<and> job_status j = Queued \<and> created_at j = 10)"
proof -
  have g: "get_queued_scans backlog = Some (''a'', ''t1'', Some ''example.org'', [''ping''], ''org'')"
    by (simp add: get_queued_scans_def backlog_def mk_job_def claimable_def)
  from claim_oldest_unlocked [of backlog] g
  obtain j where "(''a'', j) \<in> set (scan_jobs backlog)" "job_status j = Queued"
    "\<forall>r \<in> set (scan_jobs backlog).
        job_status (snd r) = Queued \<and> fst r \<notin> locked backlog \<longrightarrow>
        created_at j \<le> created_at (snd r)"
    by blast
  moreover from this have "created_at j = 10"
    by (auto simp: backlog_def mk_job_def)
  ultimately show ?thesis
    using g by blast
qed

text \<open>
  The claim as stated fails when the oldest queued row is locked by another
  transaction: the query skips it and returns a younger job, although the older one
  still has status \<open>Queued\<close>.
\<close>

theorem claim_skips_locked_counterexample:
  "\<not> (\<forall>conn sid tid u cs oid. get_queued_scans conn = Some (sid, tid, u, cs, oid) \<longrightarrow>
        (\<exists>j. (sid, j) \<in> set (scan_jobs conn)
            \<and> (\<forall>r \<in> set (scan_jobs conn).
                  job_status (snd r) = Queued \<longrightarrow> created_at j \<le> created_at (snd r))))"
proof
  assume a: "\<forall>conn sid tid u cs oid. get_queued_scans conn = Some (sid, tid, u, cs, oid) \<longrightarrow>
        (\<exists>j. (sid, j) \<in> set (scan_jobs conn)
            \<and> (\<forall>r \<in> set (scan_jobs conn).
                  job_status (snd r) = Queued \<longrightarrow> created_at j \<le> created_at (snd r)))"
  have g: "get_queued_scans (backlog\<lparr>locked := {''a''}\<rparr>) =
      Some (''b'', ''t1'', Some ''example.org'', [''ping'', ''headers'', ''unknown_check''], ''org'')"
    by (simp add: get_queued_scans_def backlog_def mk_job_def claimable_def)
  from a [rule_format, OF g]
  obtain j where "(''b'', j) \<in> set (scan_jobs (backlog\<lparr>locked := {''a''}\<rparr>))"
    and "\<forall>r \<in> set (scan_jobs (backlog\<lparr>locked := {''a''}\<rparr>)).
           job_status (snd r) = Queued \<longrightarrow> created_at j \<le> created_at (snd r)"
    by blast
  then show False
    by (auto simp: backlog_def mk_job_def)
qed

section \<open>Properties of the progress arithmetic\<close>

text \<open>Rounding to the nearest double is monotone, and exact on 1 and 100.\<close>

lemma round_half_even_bounds:
  "of_int (round_half_even x) \<le> x + 1 / 2 \<and> x - 1 / 2 \<le> of_int (round_half_even x)"
  unfolding round_half_even_def Let_def by (auto; linarith)

lemma round_half_even_floor:
  "round_half_even x = \<lfloor>x\<rfloor> \<or> round_half_even x = \<lfloor>x\<rfloor> + 1"
  unfolding round_half_even_def Let_def by auto

lemma round_half_even_of_int [simp]: "round_half_even (of_int n) = n"
  unfolding round_half_even_def Let_def by simp

lemma round_half_even_mono:
  assumes "x \<le> y"
  shows "round_half_even x \<le> round_half_even y"
proof (cases "\<lfloor>x\<rfloor> = \<lfloor>y\<rfloor>")
  case True
  then show ?thesis
    using assms unfolding round_half_even_def Let_def by auto
next
  case False
  then have "\<lfloor>x\<rfloor> + 1 \<le> \<lfloor>y\<rfloor>"
    using assms floor_mono [of x y] by linarith
  moreover have "round_half_even x \<le> \<lfloor>x\<rfloor> + 1"
    using round_half_even_floor [of x] by auto
  moreover have "\<lfloor>y\<rfloor> \<le> round_half_even y"
    using round_half_even_floor [of y] by auto
  ultimately show ?thesis by linarith
qed

lemma bitlen_powi:
  assumes "0 < n"
  shows "2 powi (bitlen n - 1) \<le> (of_int n :: rat) \<and> (of_int n :: rat) < 2 powi (bitlen n)"
proof -
  have b: "1 \<le> bitlen n"
    using assms by (simp add: bitlen_alt_def)
  from bitlen_bounds [OF assms]
  have "(of_int (2 ^ nat (bitlen n - 1)) :: rat) \<le> of_int n"
    and "(of_int n :: rat) < of_int (2 ^ nat (bitlen n))"
    by (simp_all only: of_int_le_iff of_int_less_iff)
  then show ?thesis
    using b by (simp add: power_int_def)
qed

lemma float_exponent_bounds:
  assumes "0 < x"
  shows "2 powi (float_exponent x) \<le> x \<and> x < 2 powi (float_exponent x + 1)"
proof -
  obtain p q where pq: "quotient_of x = (p, q)" by (cases "quotient_of x")
  have q: "0 < q" using quotient_of_denom_pos [OF pq] .
  have x: "x = of_int p / of_int q" using quotient_of_div [OF pq] .
  have p: "0 < p" using assms q x by (simp add: zero_less_divide_iff)
  define e where "e = bitlen p - bitlen q"
  note bp = bitlen_powi [OF p] and bq = bitlen_powi [OF q]
  have qpos: "(0::rat) < of_int q" using q by simp
  have ppos: "(0::rat) \<le> of_int p" using p by simp
  have "x < 2 powi (bitlen p) / 2 powi (bitlen q - 1)"
    unfolding x using bp bq ppos by (intro frac_less) auto
  also have "\<dots> = 2 powi (e + 1)"
    unfolding e_def by (simp add: power_int_diff [symmetric] algebra_simps)
  finally have up: "x < 2 powi (e + 1)" .
  have "2 powi (bitlen p - 1) / 2 powi (bitlen q) \<le> x"
    unfolding x using bp bq qpos ppos by (intro frac_le) auto
  moreover have "2 powi (bitlen p - 1) / 2 powi (bitlen q) = (2::rat) powi (e - 1)"
    unfolding e_def by (simp add: power_int_diff [symmetric] algebra_simps)
  ultimately have lo: "2 powi (e - 1) \<le> x" by simp
  have fe: "float_exponent x = (if 2 powi e \<le> x then e else e - 1)"
    by (simp add: float_exponent_def pq e_def Let_def)
  show ?thesis
    using up lo by (auto simp: fe)
qed


lemma float_exponent_mono:
  assumes "0 < x" "x \<le> y"
  shows "float_exponent x \<le> float_exponent y"
proof -
  have "0 < y" using assms by simp
  from float_exponent_bounds [OF assms(1)] float_exponent_bounds [OF this] assms(2)
  have "(2::rat) powi float_exponent x < 2 powi (float_exponent y + 1)"
    by linarith
  then have "float_exponent x < float_exponent y + 1"
    by (rule_tac ccontr) (use power_int_increasing [of "float_exponent y + 1" "float_exponent x" "2::rat"] in auto)
  then show ?thesis by simp
qed

lemma round_double_pos:
  assumes "0 < x"
  shows "round_double x =
    of_int (round_half_even (x / 2 powi (max (float_exponent x) (- 1022) - 52)))
      * 2 powi (max (float_exponent x) (- 1022) - 52)"
  using assms by (simp add: round_double_def Let_def)

lemma round_double_upper:
  assumes "0 < x"
  shows "round_double x \<le> 2 powi (max (float_exponent x) (- 1022) + 1)"
proof -
  define E where "E = max (float_exponent x) (- 1022)"
  define u :: rat where "u = 2 powi (E - 52)"
  have u: "0 < u" by (simp add: u_def)
  have "x < 2 powi (float_exponent x + 1)"
    using float_exponent_bounds [OF assms] by simp
  also have "\<dots> \<le> 2 powi (E + 1)"
    by (rule power_int_increasing) (simp_all add: E_def)
  finally have "x / u \<le> 2 powi (E + 1) / u"
    using u by (simp add: divide_right_mono)
  also have "2 powi (E + 1) / u = 2 ^ 53"
    unfolding u_def by (simp add: power_int_diff [symmetric])
  finally have "round_half_even (x / u) \<le> round_half_even (of_int (2 ^ 53))"
    by (intro round_half_even_mono) simp
  then have "round_half_even (x / u) \<le> 2 ^ 53"
    by (simp only: round_half_even_of_int)
  then have "(of_int (round_half_even (x / u)) :: rat) \<le> of_int (2 ^ 53)"
    by (simp only: of_int_le_iff)
  then have "of_int (round_half_even (x / u)) * u \<le> 2 ^ 53 * u"
    using u by (simp add: mult_right_mono)
  also have "2 ^ 53 * u = 2 powi (E + 1)"
    unfolding u_def by (simp add: power_int_diff power_int_add)
  finally show ?thesis
    using assms by (simp add: round_double_pos E_def u_def)
qed

lemma round_double_lower:
  assumes "0 < x" "- 1022 \<le> float_exponent x"
  shows "2 powi (float_exponent x) \<le> round_double x"
proof -
  define E where "E = float_exponent x"
  define u :: rat where "u = 2 powi (E - 52)"
  have m: "max (float_exponent x) (- 1022) = E"
    using assms(2) by (simp add: E_def)
  have u: "0 < u" by (simp add: u_def)
  have "2 powi E \<le> x"
    using float_exponent_bounds [OF assms(1)] by (simp add: E_def)
  then have "2 powi E / u \<le> x / u"
    using u by (simp add: divide_right_mono)
  moreover have "2 powi E / u = 2 ^ 52"
    unfolding u_def by (simp add: power_int_diff [symmetric])
  ultimately have "round_half_even (of_int (2 ^ 52)) \<le> round_half_even (x / u)"
    by (intro round_half_even_mono) simp
  then have "2 ^ 52 \<le> round_half_even (x / u)"
    by (simp only: round_half_even_of_int)
  then have "(of_int (2 ^ 52) :: rat) \<le> of_int (round_half_even (x / u))"
    by (simp only: of_int_le_iff)
  then have "2 ^ 52 * u \<le> of_int (round_half_even (x / u)) * u"
    using u by (simp add: mult_right_mono)
  moreover have "2 ^ 52 * u = 2 powi E"
    unfolding u_def by (simp add: power_int_diff power_int_add)
  ultimately have "2 powi E \<le> of_int (round_half_even (x / u)) * u"
    by (simp only:)
  moreover have "round_double x = of_int (round_half_even (x / u)) * u"
    unfolding round_double_pos [OF assms(1)] m u_def ..
  ultimately show ?thesis
    by (simp only: E_def)
qed

lemma round_double_nonneg:
  assumes "0 \<le> x"
  shows "0 \<le> round_double x"
proof (cases "x = 0")
  case True
  then show ?thesis by (simp add: round_double_def)
next
  case False
  then have x: "0 < x" using assms by simp
  define u :: rat where "u = 2 powi (max (float_exponent x) (- 1022) - 52)"
  have u: "0 < u" by (simp add: u_def)
  have "0 \<le> x / u" using x u by simp
  then have "round_half_even (of_int 0) \<le> round_half_even (x / u)"
    by (intro round_half_even_mono) simp
  then have "0 \<le> round_half_even (x / u)"
    by (simp only: round_half_even_of_int)
  then show ?thesis
    using x u by (simp add: round_double_pos u_def)
qed

lemma round_double_mono:
  assumes "0 \<le> x" "x \<le> y"
  shows "round_double x \<le> round_double y"
proof (cases "x = 0")
  case True
  then show ?thesis
    using round_double_nonneg [of y] assms by (simp add: round_double_def)
next
  case False
  then have x: "0 < x" and y: "0 < y" using assms by simp_all
  define Ex where "Ex = max (float_exponent x) (- 1022)"
  define Ey where "Ey = max (float_exponent y) (- 1022)"
  have le: "Ex \<le> Ey"
    using float_exponent_mono [OF x assms(2)] by (simp add: Ex_def Ey_def)
  show ?thesis
  proof (cases "Ex = Ey")
    case True
    define u :: rat where "u = 2 powi (Ey - 52)"
    have u: "0 < u" by (simp add: u_def)
    have "x / u \<le> y / u"
      using assms(2) u by (simp add: divide_right_mono)
    then have "(of_int (round_half_even (x / u)) :: rat) \<le> of_int (round_half_even (y / u))"
      by (simp only: of_int_le_iff round_half_even_mono)
    then have "of_int (round_half_even (x / u)) * u \<le> of_int (round_half_even (y / u)) * u"
      using u by (simp add: mult_right_mono)
    then show ?thesis
      using x y True by (simp add: round_double_pos u_def Ex_def Ey_def)
  next
    case False
    then have lt: "Ex + 1 \<le> Ey" using le by simp
    then have ey: "- 1022 \<le> float_exponent y" "Ey = float_exponent y"
      by (auto simp: Ex_def Ey_def)
    have "round_double x \<le> 2 powi (Ex + 1)"
      using round_double_upper [OF x] by (simp add: Ex_def)
    also have "\<dots> \<le> 2 powi Ey"
      by (rule power_int_increasing) (use lt in simp_all)
    also have "\<dots> \<le> round_double y"
      using round_double_lower [OF y ey(1)] by (simp add: ey(2))
    finally show ?thesis .
  qed
qed

lemma round_double_1: "round_double 1 = 1"
  by code_simp

lemma round_double_100: "round_double 100 = 100"
  by code_simp


lemma py_truediv_le_1:
  assumes "0 < t" "c \<le> t"
  shows "py_truediv (int c) (int t) \<le> 1"
proof -
  have "(of_int (int c) :: rat) / of_int (int t) \<le> 1"
    using assms by simp
  moreover have "(0::rat) \<le> of_int (int c) / of_int (int t)"
    by simp
  ultimately have "round_double (of_int (int c) / of_int (int t)) \<le> round_double 1"
    by (intro round_double_mono)
  then show ?thesis
    by (simp add: py_truediv_def round_double_1)
qed

lemma py_truediv_nonneg: "0 \<le> py_truediv (int c) (int t)"
  unfolding py_truediv_def by (rule round_double_nonneg) simp

lemma py_truediv_mono:
  assumes "c \<le> c'"
  shows "py_truediv (int c) (int t) \<le> py_truediv (int c') (int t)"
  unfolding py_truediv_def using assms
  by (intro round_double_mono) (simp_all add: divide_right_mono)

lemma progress_percent_mono:
  assumes "c \<le> c'"
  shows "progress_percent c t \<le> progress_percent c' t"
proof -
  have a: "0 \<le> py_truediv (int c) (int t) * 100"
    using py_truediv_nonneg [of c t] by simp
  have "py_truediv (int c) (int t) * 100 \<le> py_truediv (int c') (int t) * 100"
    using py_truediv_mono [OF assms, of t] by simp
  with a have "round_double (py_truediv (int c) (int t) * 100)
      \<le> round_double (py_truediv (int c') (int t) * 100)"
    by (intro round_double_mono)
  moreover have "0 \<le> round_double (py_truediv (int c) (int t) * 100)"
    using a by (rule round_double_nonneg)
  ultimately show ?thesis
    by (simp add: progress_percent_def py_float_mul_def py_int_def floor_mono)
qed

lemma progress_percent_nonneg: "0 \<le> progress_percent c t"
proof -
  have "0 \<le> round_double (py_truediv (int c) (int t) * 100)"
    using py_truediv_nonneg [of c t] by (intro round_double_nonneg) simp
  then show ?thesis
    by (simp add: progress_percent_def py_float_mul_def py_int_def)
qed

lemma progress_percent_all:
  assumes "0 < t"
  shows "progress_percent t t = 100"
proof -
  have "py_truediv (int t) (int t) = 1"
    using assms by (simp add: py_truediv_def round_double_1)
  then show ?thesis
    by (simp add: progress_percent_def py_float_mul_def round_double_100 py_int_def)
qed

lemma progress_percent_le_100:
  assumes "0 < t" "c \<le> t"
  shows "progress_percent c t \<le> 100"
  using progress_percent_mono [OF assms(2), of t] progress_percent_all [OF assms(1)] by simp

lemma round_double_below_1:
  "round_double (1 - 1 / 2 ^ 53) = 1 - 1 / 2 ^ 53"
  by code_simp

lemma round_double_below_100:
  "round_double ((1 - 1 / 2 ^ 53) * 100) = 100 - 1 / 2 ^ 46"
  by code_simp

lemma progress_percent_lt_100:
  assumes "c < t" "t \<le> 2 ^ 53"
  shows "progress_percent c t \<le> 99"
proof -
  define q where "q = py_truediv (int c) (int t)"
  have t: "(0::rat) < of_nat t" using assms by simp
  have "(of_nat t :: rat) \<le> of_nat (2 ^ 53)"
    using assms(2) by (simp only: of_nat_le_iff)
  then have t53: "(of_nat t :: rat) \<le> 2 ^ 53" by simp
  have "(of_nat c :: rat) + 1 \<le> of_nat t"
    using assms(1) by (metis Suc_eq_plus1 Suc_leI of_nat_1 of_nat_add of_nat_le_iff)
  then have "(of_nat c :: rat) / of_nat t \<le> 1 - 1 / of_nat t"
    using t by (simp add: field_simps)
  also have "\<dots> \<le> 1 - 1 / 2 ^ 53"
    using t t53 by (simp add: frac_le)
  finally have "round_double (of_nat c / of_nat t) \<le> round_double (1 - 1 / 2 ^ 53)"
    by (intro round_double_mono) simp_all
  also have "\<dots> = 1 - 1 / 2 ^ 53"
    by (rule round_double_below_1)
  finally have q: "q \<le> 1 - 1 / 2 ^ 53"
    by (simp add: q_def py_truediv_def)
  have q0: "0 \<le> q * 100"
    using py_truediv_nonneg [of c t] by (simp add: q_def)
  have "q * 100 \<le> (1 - 1 / 2 ^ 53) * 100"
    using q by (intro mult_right_mono) simp_all
  with q0 have "round_double (q * 100) \<le> round_double ((1 - 1 / 2 ^ 53) * 100)"
    by (intro round_double_mono)
  also have "\<dots> = 100 - 1 / 2 ^ 46"
    by (rule round_double_below_100)
  also have "\<dots> < 100"
    by simp
  finally have "\<lfloor>round_double (q * 100)\<rfloor> < 100"
    by (simp add: floor_less_iff)
  moreover have "0 \<le> round_double (q * 100)"
    using q0 by (rule round_double_nonneg)
  ultimately show ?thesis
    by (simp add: progress_percent_def py_float_mul_def py_int_def q_def)
qed

section \<open>Properties of the workers' loops\<close>

lemma save_scan_result_simps:
  "job_of (save_scan_result conn sid n st d f sev) k = job_of conn k"
  "now (save_scan_result conn sid n st d f sev) = now conn"
  "targets (save_scan_result conn sid n st d f sev) = targets conn"
  "scan_results (save_scan_result conn sid n st d f sev) =
     scan_results conn @ [\<lparr>scan_id = sid, check_type = n, row_status = st, row_data = d,
       row_findings = f, row_severity = sev\<rparr>]"
  by (simp_all add: save_scan_result_def job_of_def)

lemma update_scan_status_frame:
  "scan_results (update_scan_status conn sid st p) = scan_results conn"
  "now (update_scan_status conn sid st p) = now conn"
  "targets (update_scan_status conn sid st p) = targets conn"
  by (simp_all add: update_scan_status_def sql_update_frame)

lemma job_of_update_running:
  "job_of (update_scan_status conn sid Running p) k =
     (if k = sid
      then map_option (\<lambda>j. j\<lparr>job_status := Running, progress := or_zero p,
                               started_at := Some (now conn)\<rparr>) (job_of conn k)
      else job_of conn k)"
  by (simp add: update_scan_status_def job_of_sql_update)

lemma job_of_update_completed:
  "job_of (update_scan_status conn sid Completed p) k =
     (if k = sid
      then map_option (\<lambda>j. j\<lparr>job_status := Completed, progress := 100,
                               completed_at := Some (now conn)\<rparr>) (job_of conn k)
      else job_of conn k)"
  by (simp add: update_scan_status_def job_of_sql_update)

lemma job_of_update_failed:
  "job_of (update_scan_status conn sid Failed p) k =
     (if k = sid
      then map_option (\<lambda>j. j\<lparr>job_status := Failed, completed_at := Some (now conn)\<rparr>)
             (job_of conn k)
      else job_of conn k)"
  by (simp add: update_scan_status_def job_of_sql_update)

lemma length_run_checks:
  "length (run_checks cs w sid target t i chks conn) = 2 * length chks"
  by (induction chks arbitrary: i conn) (simp_all add: Let_def)

lemma run_checks_results:
  "scan_results (last (conn # run_checks cs w sid target t i chks conn)) =
     scan_results conn @
       map (\<lambda>(k, n). row_of sid n (execute_check cs (w k) n target))
         (zip [i ..< i + length chks] chks)"
proof (induction chks arbitrary: i conn)
  case Nil
  then show ?case by simp
next
  case (Cons n rest)
  have "[i ..< i + Suc (length rest)] = i # [Suc i ..< i + Suc (length rest)]"
    by (rule upt_conv_Cons) simp
  then have il: "[i ..< i + length (n # rest)] = i # [Suc i ..< Suc i + length rest]"
    by simp
  show ?case
    using Cons.IH [of "update_scan_status (save_scan_result conn sid n
        (status (execute_check cs (w i) n target)) (data (execute_check cs (w i) n target))
        (findings (execute_check cs (w i) n target)) (severity (execute_check cs (w i) n target)))
        sid Running (Some (progress_percent (i + 1) t))" "Suc i"]
    unfolding il
    by (simp add: Let_def update_scan_status_frame save_scan_result_simps row_of_def)
qed

lemma run_checks_now:
  "now (last (conn # run_checks cs w sid target t i chks conn)) = now conn"
  by (induction chks arbitrary: i conn)
     (simp_all add: Let_def update_scan_status_frame save_scan_result_simps)

lemma run_checks_nth:
  assumes "job_of conn sid = Some j" "n < 2 * length chks"
  shows "job_of (run_checks cs w sid target t i chks conn ! n) sid =
     Some (if n = 0 then j
           else j\<lparr>job_status := Running, progress := progress_percent (i + (n + 1) div 2) t,
                  started_at := Some (now conn)\<rparr>)"
  using assms
proof (induction chks arbitrary: i conn j n)
  case Nil
  then show ?case by simp
next
  case (Cons c rest)
  define r where "r = execute_check cs (w i) c target"
  define conn1 where "conn1 = save_scan_result conn sid c (status r) (data r) (findings r) (severity r)"
  define conn2 where "conn2 = update_scan_status conn1 sid Running (Some (progress_percent (i + 1) t))"
  define j2 where "j2 = j\<lparr>job_status := Running, progress := progress_percent (i + 1) t,
                  started_at := Some (now conn)\<rparr>"
  have rc: "run_checks cs w sid target t i (c # rest) conn =
      conn1 # conn2 # run_checks cs w sid target t (i + 1) rest conn2"
    by (simp add: Let_def conn1_def conn2_def r_def)
  have j1: "job_of conn1 sid = Some j"
    using Cons.prems(1) by (simp add: conn1_def save_scan_result_simps)
  have jc2: "job_of conn2 sid = Some j2"
    using j1 by (simp add: conn2_def job_of_update_running j2_def or_zero_def conn1_def save_scan_result_simps)
  have now2: "now conn2 = now conn"
    by (simp add: conn2_def conn1_def update_scan_status_frame save_scan_result_simps)
  consider "n = 0" | "n = 1" | m where "n = m + 2" "m < 2 * length rest"
    using Cons.prems(2) by (cases n rule: nat.exhaust; force simp: less_Suc_eq_0_disj)
  then show ?case
  proof cases
    case 1
    then show ?thesis unfolding rc using j1 by simp
  next
    case 2
    then show ?thesis unfolding rc using jc2 by (simp add: j2_def)
  next
    case 3
    have "(m + 2 + 1) div 2 = Suc ((m + 1) div 2)" by simp
    then show ?thesis
      unfolding rc using Cons.IH [OF jc2 3(2), of "i + 1"] 3(1)
      by (cases "m = 0") (simp_all add: now2 j2_def)
  qed
qed


lemma store_scan_result_simps:
  "job_of (store_scan_result conn sid n st d f sev) k = job_of conn k"
  "now (store_scan_result conn sid n st d f sev) = now conn"
  "scan_results (store_scan_result conn sid n st d f sev) =
     scan_results conn @ [\<lparr>scan_id = sid, check_type = n, row_status = st, row_data = d,
       row_findings = f, row_severity = sev\<rparr>]"
  by (simp_all add: store_scan_result_def job_of_def)

lemma update_scan_progress_simps:
  "scan_results (update_scan_progress conn sid p) = scan_results conn"
  "now (update_scan_progress conn sid p) = now conn"
  "job_of (update_scan_progress conn sid p) k =
     (if k = sid
      then map_option (\<lambda>j. j\<lparr>progress := p, updated_at := Some (now conn)\<rparr>) (job_of conn k)
      else job_of conn k)"
  by (simp_all add: update_scan_progress_def sql_update_frame job_of_sql_update)

lemma db_update_scan_status_simps:
  "scan_results (db_update_scan_status conn sid st c) = scan_results conn"
  "now (db_update_scan_status conn sid st c) = now conn"
  by (simp_all add: db_update_scan_status_def sql_update_frame split: option.split)

lemma try_check_simps:
  "job_of (try_check conn sid n out) k = job_of conn k"
  "now (try_check conn sid n out) = now conn"
  "scan_results (try_check conn sid n out) = scan_results conn @ [task_row sid n out]"
  by (simp_all add: try_check_def task_row_def store_scan_result_simps split: sum.split)

lemma task_checks_Cons:
  "task_checks cs w sid target cfg t i completed (c # rest) conn =
     (case check_map cs c of
        None \<Rightarrow> task_checks cs w sid target cfg t (Suc i) completed rest conn
      | Some f \<Rightarrow>
          (try_check conn sid c (f (w i) target cfg)
           # update_scan_progress (try_check conn sid c (f (w i) target cfg)) sid
               (progress_percent (Suc completed) t)
           # fst (task_checks cs w sid target cfg t (Suc i) (Suc completed) rest
               (update_scan_progress (try_check conn sid c (f (w i) target cfg)) sid
                  (progress_percent (Suc completed) t))),
           snd (task_checks cs w sid target cfg t (Suc i) (Suc completed) rest
               (update_scan_progress (try_check conn sid c (f (w i) target cfg)) sid
                  (progress_percent (Suc completed) t)))))"
  by (simp add: Let_def case_prod_unfold split: option.split)

lemma task_checks_count:
  "snd (task_checks cs w sid target cfg t i completed chks conn) =
     completed + length (filter (known cs) chks)"
  by (induction chks arbitrary: i completed conn)
     (simp_all add: task_checks_Cons known_def split: option.split del: task_checks.simps(2))

lemma task_checks_length:
  "length (fst (task_checks cs w sid target cfg t i completed chks conn)) =
     2 * length (filter (known cs) chks)"
  by (induction chks arbitrary: i completed conn)
     (simp_all add: task_checks_Cons known_def split: option.split del: task_checks.simps(2))

lemma last_Cons2: "last (a # b # xs) = last (b # xs)"
  by simp

lemma task_checks_now:
  "now (last (conn # fst (task_checks cs w sid target cfg t i completed chks conn))) = now conn"
proof (induction chks arbitrary: i completed conn)
  case Nil
  then show ?case by simp
next
  case (Cons c rest)
  show ?case
    unfolding task_checks_Cons
    by (simp add: Cons.IH last_Cons2 try_check_simps update_scan_progress_simps
          split: option.split del: last.simps)
qed

lemma task_checks_results:
  "scan_results (last (conn # fst (task_checks cs w sid target cfg t i completed chks conn))) =
     scan_results conn @
       List.map_filter
         (\<lambda>(k, n). map_option (\<lambda>f. task_row sid n (f (w k) target cfg)) (check_map cs n))
         (zip [i ..< i + length chks] chks)"
proof (induction chks arbitrary: i completed conn)
  case Nil
  then show ?case by (simp add:)
next
  case (Cons c rest)
  have "[i ..< i + Suc (length rest)] = i # [Suc i ..< i + Suc (length rest)]"
    by (rule upt_conv_Cons) simp
  then have il: "[i ..< i + length (c # rest)] = i # [Suc i ..< Suc i + length rest]"
    by simp
  show ?case
    unfolding il task_checks_Cons
    by (simp add: Cons.IH last_Cons2 try_check_simps
          update_scan_progress_simps split: option.split del: last.simps)
qed

lemma task_checks_nth:
  assumes "job_of conn sid = Some j" "n < 2 * length (filter (known cs) chks)"
  shows "job_of (fst (task_checks cs w sid target cfg t i completed chks conn) ! n) sid =
     Some (if n = 0 then j
           else j\<lparr>progress := progress_percent (completed + (n + 1) div 2) t,
                  updated_at := Some (now conn)\<rparr>)"
  using assms
proof (induction chks arbitrary: i completed conn j n)
  case Nil
  then show ?case by simp
next
  case (Cons c rest)
  show ?case
  proof (cases "check_map cs c")
    case None
    then have "\<not> known cs c"
      by (simp add: known_def)
    then show ?thesis
      using Cons.IH [of conn j n "Suc i" completed] Cons.prems None
      by (simp add: task_checks_Cons)
  next
    case (Some f)
    define conn1 where "conn1 = try_check conn sid c (f (w i) target cfg)"
    define conn2 where "conn2 = update_scan_progress conn1 sid (progress_percent (Suc completed) t)"
    define j2 where "j2 = j\<lparr>progress := progress_percent (Suc completed) t,
                  updated_at := Some (now conn)\<rparr>"
    have rc: "fst (task_checks cs w sid target cfg t i completed (c # rest) conn) =
        conn1 # conn2 # fst (task_checks cs w sid target cfg t (Suc i) (Suc completed) rest conn2)"
      unfolding task_checks_Cons by (simp add: Some conn1_def conn2_def)
    have j1: "job_of conn1 sid = Some j"
      using Cons.prems(1) by (simp add: conn1_def try_check_simps)
    have jc2: "job_of conn2 sid = Some j2"
      using j1 by (simp add: conn2_def update_scan_progress_simps j2_def conn1_def try_check_simps)
    have now2: "now conn2 = now conn"
      by (simp add: conn2_def conn1_def update_scan_progress_simps try_check_simps)
    have "known cs c"
      using Some by (simp add: known_def)
    then have len: "n < 2 * length (filter (known cs) rest) + 2"
      using Cons.prems(2) by simp
    consider "n = 0" | "n = 1" | m where "n = m + 2" "m < 2 * length (filter (known cs) rest)"
      using len by (cases n rule: nat.exhaust; force simp: less_Suc_eq_0_disj)
    then show ?thesis
    proof cases
      case 1
      then show ?thesis unfolding rc using j1 by simp
    next
      case 2
      then show ?thesis unfolding rc using jc2 by (simp add: j2_def)
    next
      case 3
      have "(m + 2 + 1) div 2 = Suc ((m + 1) div 2)" by simp
      then show ?thesis
        unfolding rc using Cons.IH [OF jc2 3(2), of "Suc i" "Suc completed"] 3(1)
        by (cases "m = 0") (simp_all add: now2 j2_def)
    qed
  qed
qed

lemma progress_percent_0: "progress_percent 0 t = 0"
  by (simp add: progress_percent_def py_truediv_def py_float_mul_def py_int_def round_double_def)

lemma map_filter_all_Some:
  assumes "\<And>n. n < length xs \<Longrightarrow> f (xs ! n) = Some (g n)"
  shows "List.map_filter f xs = map g [0 ..< length xs]"
  using assms
proof (induction xs arbitrary: g)
  case Nil
  then show ?case by simp
next
  case (Cons x xs)
  have "f x = Some (g 0)"
    using Cons.prems [of 0] by simp
  moreover have "List.map_filter f xs = map (g \<circ> Suc) [0 ..< length xs]"
    using Cons.prems [of "Suc n" for n] by (intro Cons.IH) simp
  ultimately show ?case
    by (simp add: map_upt_Suc del: upt_Suc)
qed

lemma sorted_map_upt:
  assumes "\<And>m n. m \<le> n \<Longrightarrow> n < k \<Longrightarrow> g m \<le> (g n :: int)"
  shows "sorted (map g [0 ..< k])"
  using assms by (simp add: sorted_iff_nth_mono)

lemma process_scan_commits_resolved:
  assumes "resolve_target conn tid u = Some target"
  shows "process_scan_commits cs w conn (sid, tid, u, chks, org) =
     update_scan_status conn sid Running (Some 0)
     # run_checks cs w sid target (length chks) 0 chks (update_scan_status conn sid Running (Some 0))
     @ [update_scan_status
          (last (update_scan_status conn sid Running (Some 0)
                 # run_checks cs w sid target (length chks) 0 chks
                     (update_scan_status conn sid Running (Some 0))))
          sid Completed None]"
  using assms by (simp add: process_scan_commits_def Let_def)

lemma process_scan_nth:
  assumes r: "resolve_target conn tid u = Some target"
    and j: "job_of conn sid = Some j"
    and n: "n \<le> 2 * length chks + 1"
  shows "job_state (process_scan_commits cs w conn (sid, tid, u, chks, org) ! n) sid =
     Some (if n \<le> 2 * length chks then (Running, progress_percent (n div 2) (length chks))
           else (Completed, 100))"
proof -
  define conn0 where "conn0 = update_scan_status conn sid Running (Some 0)"
  define steps where "steps = run_checks cs w sid target (length chks) 0 chks conn0"
  define j0 where "j0 = j\<lparr>job_status := Running, progress := 0, started_at := Some (now conn)\<rparr>"
  have commits: "process_scan_commits cs w conn (sid, tid, u, chks, org) =
      conn0 # steps @ [update_scan_status (last (conn0 # steps)) sid Completed None]"
    unfolding process_scan_commits_resolved [OF r] conn0_def steps_def ..
  have len: "length steps = 2 * length chks"
    by (simp add: steps_def length_run_checks)
  have j0: "job_of conn0 sid = Some j0"
    using j by (simp add: conn0_def job_of_update_running j0_def or_zero_def)
  have now0: "now conn0 = now conn"
    by (simp add: conn0_def update_scan_status_frame)
  have step: "job_state (steps ! m) sid = Some (Running, progress_percent ((m + 1) div 2) (length chks))"
    if "m < 2 * length chks" for m
    using run_checks_nth [OF j0 that, of cs w target "length chks" 0]
    by (cases "m = 0") (simp_all add: steps_def job_state_def j0_def progress_percent_0)
  have lastj: "\<exists>j'. job_of (last (conn0 # steps)) sid = Some j'"
  proof (cases "chks = []")
    case True
    then show ?thesis using j0 by (simp add: steps_def)
  next
    case False
    then have "steps \<noteq> []" using len by auto
    then have "last (conn0 # steps) = steps ! (2 * length chks - 1)"
      using len by (simp add: last_conv_nth)
    moreover have "2 * length chks - 1 < 2 * length chks"
      using False by simp
    ultimately show ?thesis
      using run_checks_nth [OF j0, of "2 * length chks - 1" chks cs w target "length chks" 0]
      by (simp add: steps_def)
  qed
  consider "n = 0" | "0 < n" "n \<le> 2 * length chks" | "n = 2 * length chks + 1"
    using n by linarith
  then show ?thesis
  proof cases
    case 1
    then show ?thesis
      using j0 by (simp add: commits job_state_def j0_def progress_percent_0)
  next
    case 2
    then have "(conn0 # steps @ [update_scan_status (last (conn0 # steps)) sid Completed None]) ! n
        = steps ! (n - 1)"
      using len by (simp add: nth_Cons' nth_append)
    moreover have "(n - 1 + 1) div 2 = n div 2"
      using 2 by simp
    ultimately show ?thesis
      using step [of "n - 1"] 2 by (simp add: commits)
  next
    case 3
    then have "(conn0 # steps @ [update_scan_status (last (conn0 # steps)) sid Completed None]) ! n
        = update_scan_status (last (conn0 # steps)) sid Completed None"
      using len by (simp add: nth_append)
    then show ?thesis
      using lastj 3 by (auto simp: commits job_state_def job_of_update_completed)
  qed
qed

lemma length_process_scan_commits:
  assumes "resolve_target conn tid u = Some target"
  shows "length (process_scan_commits cs w conn (sid, tid, u, chks, org)) = 2 * length chks + 2"
  unfolding process_scan_commits_resolved [OF assms] by (simp add: length_run_checks)


lemma job_state_simps:
  "job_state (try_check conn sid n out) k = job_state conn k"
  "job_state (update_scan_progress conn sid p) sid =
     map_option (\<lambda>x. (fst x, p)) (job_state conn sid)"
  "job_state (db_update_scan_status conn sid st c) sid =
     map_option (\<lambda>x. (st, snd x)) (job_state conn sid)"
  by (auto simp: job_state_def try_check_simps update_scan_progress_simps
        db_update_scan_status_def job_of_sql_update map_option.compositionality comp_def
        split: option.split)

lemma execute_scan_commits:
  "fst (execute_scan cs w utcnow conn sid target chks cfg) =
     db_update_scan_status conn sid Running None
     # update_scan_progress (db_update_scan_status conn sid Running None) sid 0
     # fst (task_checks cs w sid target cfg (length chks) 0 0 chks
            (update_scan_progress (db_update_scan_status conn sid Running None) sid 0))
     @ [db_update_scan_status
          (last (update_scan_progress (db_update_scan_status conn sid Running None) sid 0
                 # fst (task_checks cs w sid target cfg (length chks) 0 0 chks
                        (update_scan_progress (db_update_scan_status conn sid Running None) sid 0))))
          sid Completed (Some utcnow),
        update_scan_progress
          (db_update_scan_status
             (last (update_scan_progress (db_update_scan_status conn sid Running None) sid 0
                    # fst (task_checks cs w sid target cfg (length chks) 0 0 chks
                           (update_scan_progress (db_update_scan_status conn sid Running None) sid 0))))
             sid Completed (Some utcnow))
          sid 100]"
  by (simp add: execute_scan_def Let_def case_prod_unfold)

lemma execute_scan_nth:
  assumes j: "job_of conn sid = Some j"
    and m: "m \<le> 2 * length (filter (known cs) chks) + 3"
  shows "job_state (fst (execute_scan cs w utcnow conn sid target chks cfg) ! m) sid =
     Some (if m = 0 then (Running, progress j)
           else if m \<le> 2 * length (filter (known cs) chks) + 1
             then (Running, progress_percent ((m - 1) div 2) (length chks))
           else if m = 2 * length (filter (known cs) chks) + 2
             then (Completed, progress_percent (length (filter (known cs) chks)) (length chks))
           else (Completed, 100))"
proof -
  define K where "K = length (filter (known cs) chks)"
  define conn0 where "conn0 = db_update_scan_status conn sid Running None"
  define conn1 where "conn1 = update_scan_progress conn0 sid 0"
  define steps where "steps = fst (task_checks cs w sid target cfg (length chks) 0 0 chks conn1)"
  define conn2 where "conn2 = db_update_scan_status (last (conn1 # steps)) sid Completed (Some utcnow)"
  define conn3 where "conn3 = update_scan_progress conn2 sid 100"
  have commits: "fst (execute_scan cs w utcnow conn sid target chks cfg) =
      conn0 # conn1 # steps @ [conn2, conn3]"
    unfolding execute_scan_commits conn0_def conn1_def steps_def conn2_def conn3_def ..
  have len: "length steps = 2 * K"
    by (simp add: steps_def task_checks_length K_def)
  have s0: "job_state conn0 sid = Some (Running, progress j)"
    using j by (simp add: conn0_def job_state_simps) (simp add: job_state_def)
  have s1: "job_state conn1 sid = Some (Running, 0)"
    using s0 by (simp add: conn1_def job_state_simps)
  obtain j1 where j1: "job_of conn1 sid = Some j1" "job_status j1 = Running" "progress j1 = 0"
    using s1 by (auto simp: job_state_def)
  have step: "job_state (steps ! n) sid = Some (Running, progress_percent ((n + 1) div 2) (length chks))"
    if "n < 2 * K" for n
    using task_checks_nth [OF j1(1), of n cs chks w target cfg "length chks" 0 0] that j1(2,3)
    by (cases "n = 0") (simp_all add: steps_def job_state_def K_def progress_percent_0)
  have slast: "job_state (last (conn1 # steps)) sid = Some (Running, progress_percent K (length chks))"
  proof (cases "K = 0")
    case True
    then have "steps = []" using len by simp
    then show ?thesis using s1 True by (simp add: progress_percent_0)
  next
    case False
    then have "steps \<noteq> []" using len by auto
    then have "last (conn1 # steps) = steps ! (2 * K - 1)"
      using len by (simp add: last_conv_nth)
    moreover have "2 * K - 1 < 2 * K" "(2 * K - 1 + 1) div 2 = K"
      using False by simp_all
    ultimately show ?thesis
      using step [of "2 * K - 1"] by simp
  qed
  have s2: "job_state conn2 sid = Some (Completed, progress_percent K (length chks))"
    using slast by (simp add: conn2_def job_state_simps)
  have s3: "job_state conn3 sid = Some (Completed, 100)"
    using s2 by (simp add: conn3_def job_state_simps)
  consider "m = 0" | "m = 1" | "2 \<le> m" "m \<le> 2 * K + 1" | "m = 2 * K + 2" | "m = 2 * K + 3"
    using m unfolding K_def [symmetric] by linarith
  then show ?thesis
  proof cases
    case 1
    then show ?thesis using s0 by (simp add: commits)
  next
    case 2
    then show ?thesis using s1 by (simp add: commits progress_percent_0)
  next
    case 3
    then have "(conn0 # conn1 # steps @ [conn2, conn3]) ! m = steps ! (m - 2)"
      using len by (simp add: nth_Cons' nth_append numeral_2_eq_2)
    moreover have "(m - 2 + 1) div 2 = (m - 1) div 2" "m - 2 < 2 * K"
      using 3 by simp_all
    ultimately show ?thesis
      using step [of "m - 2"] 3 by (simp add: commits K_def)
  next
    case 4
    then have "(conn0 # conn1 # steps @ [conn2, conn3]) ! m = conn2"
      using len by (simp add: nth_append)
    then show ?thesis
      using s2 4 by (simp add: commits K_def)
  next
    case 5
    then have "(conn0 # conn1 # steps @ [conn2, conn3]) ! m = conn3"
      using len by (simp add: nth_append)
    then show ?thesis
      using s3 5 by (simp add: commits K_def)
  qed
qed

lemma length_execute_scan:
  "length (fst (execute_scan cs w utcnow conn sid target chks cfg)) =
     2 * length (filter (known cs) chks) + 4"
  unfolding execute_scan_commits by (simp add: task_checks_length)

lemma progress_percent_bound:
  assumes "c \<le> t"
  shows "progress_percent c t \<le> 100"
proof (cases "t = 0")
  case True
  then show ?thesis using assms by (simp add: progress_percent_0)
next
  case False
  then show ?thesis using progress_percent_le_100 [of t c] assms by simp
qed

lemma job_state_progress:
  "job_state c sid = Some x \<Longrightarrow> map_option progress (job_of c sid) = Some (snd x)"
  by (auto simp: job_state_def)

lemma process_scan_progress_log:
  assumes r: "resolve_target conn tid u = Some target" and j: "job_of conn sid = Some j"
  shows "progress_log sid (process_scan_commits cs w conn (sid, tid, u, chks, org)) =
     map (\<lambda>n. if n \<le> 2 * length chks then progress_percent (n div 2) (length chks) else 100)
       [0 ..< 2 * length chks + 2]"
proof -
  have "List.map_filter (\<lambda>c. map_option progress (job_of c sid))
          (process_scan_commits cs w conn (sid, tid, u, chks, org)) =
        map (\<lambda>n. if n \<le> 2 * length chks then progress_percent (n div 2) (length chks) else 100)
          [0 ..< length (process_scan_commits cs w conn (sid, tid, u, chks, org))]"
  proof (rule map_filter_all_Some)
    fix n
    assume "n < length (process_scan_commits cs w conn (sid, tid, u, chks, org))"
    then have "n \<le> 2 * length chks + 1"
      by (simp add: length_process_scan_commits [OF r])
    from job_state_progress [OF process_scan_nth [OF r j this, of cs w org]]
    show "map_option progress
            (job_of (process_scan_commits cs w conn (sid, tid, u, chks, org) ! n) sid) =
          Some (if n \<le> 2 * length chks then progress_percent (n div 2) (length chks) else 100)"
      by (simp split: if_splits del: map_option_eq_Some)
  qed
  then show ?thesis
    by (simp add: progress_log_def length_process_scan_commits [OF r])
qed

lemma sorted_progress_values:
  assumes "k \<le> 2 * t + 1"
  shows "sorted (map (\<lambda>n. if n \<le> k then progress_percent (n div 2) t else 100) [0 ..< k + 2])"
proof (rule sorted_map_upt)
  fix m n :: nat
  assume mn: "m \<le> n" and "n < k + 2"
  have "m div 2 \<le> n div 2"
    using mn by (simp add: div_le_mono)
  moreover have "m div 2 \<le> t" if "m \<le> k"
    using that assms by linarith
  ultimately show "(if m \<le> k then progress_percent (m div 2) t else 100)
      \<le> (if n \<le> k then progress_percent (n div 2) t else 100)"
    using mn by (auto intro: progress_percent_mono progress_percent_bound)
qed

lemma execute_scan_progress_log:
  assumes j: "job_of conn sid = Some j"
  shows "progress_log sid (tl (fst (execute_scan cs w utcnow conn sid target chks cfg))) =
     map (\<lambda>n. if n \<le> 2 * length (filter (known cs) chks) + 1
               then progress_percent (n div 2) (length chks) else 100)
       [0 ..< 2 * length (filter (known cs) chks) + 1 + 2]"
proof -
  define K where "K = length (filter (known cs) chks)"
  define commits where "commits = fst (execute_scan cs w utcnow conn sid target chks cfg)"
  have len: "length commits = 2 * K + 4"
    by (simp add: commits_def K_def length_execute_scan)
  have "List.map_filter (\<lambda>c. map_option progress (job_of c sid)) (tl commits) =
        map (\<lambda>n. if n \<le> 2 * K + 1 then progress_percent (n div 2) (length chks) else 100)
          [0 ..< length (tl commits)]"
  proof (rule map_filter_all_Some)
    fix n
    assume "n < length (tl commits)"
    then have n: "Suc n \<le> 2 * K + 3"
      using len by simp
    have "tl commits ! n = commits ! Suc n"
      using len n by (simp add: nth_tl)
    moreover have "(2 * K + 1) div 2 = K"
      by simp
    ultimately show "map_option progress (job_of (tl commits ! n) sid) =
          Some (if n \<le> 2 * K + 1 then progress_percent (n div 2) (length chks) else 100)"
      using job_state_progress [OF execute_scan_nth [OF j, of "Suc n" cs chks w utcnow target cfg]] n
      unfolding K_def [symmetric] commits_def [symmetric]
      by (auto split: if_splits simp: le_Suc_eq simp del: map_option_eq_Some)
  qed
  moreover have "length (tl commits) = 2 * K + 1 + 2"
    using len by simp
  ultimately show ?thesis
    unfolding progress_log_def K_def commits_def by (simp only:)
qed

lemma check_map_unknown:
  "check_map cs ''unknown_check'' = None"
  by (simp add: check_map_def)

lemma check_map_ping: "check_map cs ''ping'' = Some (ping cs)"
  by (simp add: check_map_def)

lemma execute_check_unknown:
  assumes "\<not> known cs n"
  shows "execute_check cs x n target =
     \<lparr>status = Error, data = PDict [(''error'', PStr (''Unknown check: '' @ n))],
      findings = 0, severity = Info\<rparr>"
  using assms by (simp add: execute_check_def known_def)

lemma process_scan_final:
  assumes r: "resolve_target conn tid u = Some target" and j: "job_of conn sid = Some j"
  shows "job_state (process_scan cs w conn (sid, tid, u, chks, org)) sid = Some (Completed, 100)"
proof -
  have "process_scan_commits cs w conn (sid, tid, u, chks, org) \<noteq> []"
    using length_process_scan_commits [OF r, of cs w sid chks org] by auto
  then have "process_scan cs w conn (sid, tid, u, chks, org) =
      process_scan_commits cs w conn (sid, tid, u, chks, org) ! (2 * length chks + 1)"
    by (simp add: process_scan_def last_conv_nth length_process_scan_commits [OF r])
  then show ?thesis
    using process_scan_nth [OF r j, of "2 * length chks + 1" chks cs w org] by simp
qed

lemma last_Cons_snoc: "last (a # xs @ [b]) = b"
  by simp

lemma last_Cons_snoc2: "last (a # b # xs @ [c, d]) = d"
  by simp

lemma process_scan_results:
  assumes r: "resolve_target conn tid u = Some target"
  shows "scan_results (process_scan cs w conn (sid, tid, u, chks, org)) =
     scan_results conn @
       map (\<lambda>(k, n). row_of sid n (execute_check cs (w k) n target)) (zip [0 ..< length chks] chks)"
  using run_checks_results [of "update_scan_status conn sid Running (Some 0)" cs w sid target
      "length chks" 0 chks]
  by (simp add: process_scan_def process_scan_commits_resolved [OF r] update_scan_status_frame
        last_Cons_snoc del: last.simps)

lemma execute_scan_final:
  assumes j: "job_of conn sid = Some j"
  shows "job_state (last (fst (execute_scan cs w utcnow conn sid target chks cfg))) sid =
     Some (Completed, 100)"
proof -
  have "fst (execute_scan cs w utcnow conn sid target chks cfg) \<noteq> []"
    using length_execute_scan [of cs w utcnow conn sid target chks cfg] by auto
  then have "last (fst (execute_scan cs w utcnow conn sid target chks cfg)) =
      fst (execute_scan cs w utcnow conn sid target chks cfg)
        ! (length (fst (execute_scan cs w utcnow conn sid target chks cfg)) - 1)"
    by (rule last_conv_nth)
  moreover have "length (fst (execute_scan cs w utcnow conn sid target chks cfg)) - 1 =
      2 * length (filter (known cs) chks) + 3"
    by (simp add: length_execute_scan)
  ultimately have "last (fst (execute_scan cs w utcnow conn sid target chks cfg)) =
      fst (execute_scan cs w utcnow conn sid target chks cfg)
        ! (2 * length (filter (known cs) chks) + 3)"
    by (simp only:)
  then show ?thesis
    using execute_scan_nth [OF j, of "2 * length (filter (known cs) chks) + 3" cs chks w utcnow
        target cfg]
    by simp
qed

lemma execute_scan_results:
  "scan_results (last (fst (execute_scan cs w utcnow conn sid target chks cfg))) =
     scan_results conn @
       List.map_filter
         (\<lambda>(k, n). map_option (\<lambda>f. task_row sid n (f (w k) target cfg)) (check_map cs n))
         (zip [0 ..< length chks] chks)"
  using task_checks_results [of "update_scan_progress (db_update_scan_status conn sid Running None) sid 0"
      cs w sid target cfg "length chks" 0 0 chks]
  unfolding execute_scan_commits
  by (simp add: update_scan_progress_simps db_update_scan_status_simps last_Cons_snoc2
        del: last.simps)

lemma length_map_filter_known:
  "length (List.map_filter
         (\<lambda>(k, n). map_option (\<lambda>f. task_row sid n (f (w k) target cfg)) (check_map cs n))
         (zip [i ..< i + length chks] chks)) = length (filter (known cs) chks)"
proof (induction chks arbitrary: i)
  case Nil
  then show ?case by simp
next
  case (Cons c rest)
  have "[i ..< i + Suc (length rest)] = i # [Suc i ..< i + Suc (length rest)]"
    by (rule upt_conv_Cons) simp
  then have il: "[i ..< i + length (c # rest)] = i # [Suc i ..< Suc i + length rest]"
    by simp
  show ?case
    unfolding il using Cons.IH [of "Suc i"]
    by (cases "check_map cs c") (simp_all add: known_def)
qed

section \<open>The claims about the workers\<close>

lemma backlog_b:
  "resolve_target backlog ''t1'' (Some ''example.org'') = Some ''example.org''"
  "job_of backlog ''b'' =
     Some (mk_job 20 Queued (Some ''example.org'') [''ping'', ''headers'', ''unknown_check''])"
  "job_of backlog ''a'' = Some (mk_job 10 Queued (Some ''example.org'') [''ping''])"
  "scan_results backlog = []"
  by (simp_all add: resolve_target_def job_of_def backlog_def)

text \<open>
  C9. A job whose target cannot be resolved (its \<^verbatim>\<open>url\<close> is empty or missing and
  \<^verbatim>\<open>targets\<close> has no row for its target id) makes \<^verbatim>\<open>process_scan\<close> commit
  exactly one statement, the update of the job to \<open>Failed\<close>: the job goes to
  \<open>Failed\<close> without passing \<open>Running\<close>, no check is called (the commits do not
  depend on the checks or on the world) and no result row is written.
\<close>

theorem unresolved_target_fails:
  assumes "u = None \<or> u = Some []"
    and "targets conn tid = None"
    and "job_of conn sid = Some j"
  shows "process_scan_commits cs w conn (sid, tid, u, chks, org) =
           [update_scan_status conn sid Failed None]
       \<and> job_of (process_scan cs w conn (sid, tid, u, chks, org)) sid =
           Some (j\<lparr>job_status := Failed, completed_at := Some (now conn)\<rparr>)
       \<and> scan_results (process_scan cs w conn (sid, tid, u, chks, org)) = scan_results conn"
proof -
  have "resolve_target conn tid u = None"
    using assms(1,2) by (auto simp: resolve_target_def)
  then have c: "process_scan_commits cs w conn (sid, tid, u, chks, org) =
      [update_scan_status conn sid Failed None]"
    by (simp add: process_scan_commits_def)
  then show ?thesis
    using assms(3)
    by (simp add: process_scan_def job_of_update_failed update_scan_status_frame)
qed

theorem unresolved_target_fails_witness:
  "targets backlog ''t1'' = None
   \<and> job_of backlog ''c'' = Some (mk_job 30 Queued None [''ping''])
   \<and> process_scan_commits checks_impl (\<lambda>i. quiet_env) backlog (''c'', ''t1'', None, [''ping''], ''org'') =
        [update_scan_status backlog ''c'' Failed None]
   \<and> job_state (process_scan checks_impl (\<lambda>i. quiet_env) backlog
        (''c'', ''t1'', None, [''ping''], ''org'')) ''c'' = Some (Failed, 0)
   \<and> scan_results (process_scan checks_impl (\<lambda>i. quiet_env) backlog
        (''c'', ''t1'', None, [''ping''], ''org'')) = []"
proof -
  have t: "targets backlog ''t1'' = None"
    by (simp add: backlog_def)
  have j: "job_of backlog ''c'' = Some (mk_job 30 Queued None [''ping''])"
    by (simp add: job_of_def backlog_def)
  have r: "scan_results backlog = []"
    by (simp add: backlog_def)
  show ?thesis
    using unresolved_target_fails [of None backlog "''t1''" "''c''" _ checks_impl
        "\<lambda>i. quiet_env" "[''ping'']" "''org''", OF _ t j] t j
    by (simp add: job_state_def r mk_job_def)
qed

text \<open>What the checks answer in the quiet world, and the rows that the two workers make of it.\<close>

lemma ping_quiet:
  "verdict (ping_check quiet_env ''example.org'' c) = Some (Success, 0, Info)"
  by (simp add: ping_check_def ping_try_def and_then_def quiet_env_def timeout_env_def Let_def
        verdict_def)

lemma headers_quiet_verdict:
  "verdict (headers_check quiet_env ''example.org'' c) = Some (Success, 7, High)"
  by (simp add: headers_check_def headers_try_def and_then_def quiet_env_def timeout_env_def
        Let_def with_scheme_def startswith_def parse_headers_def SECURITY_HEADERS_def
        headers_severity_def verdict_def)

lemma check_map_headers: "check_map cs ''headers'' = Some (headers cs)"
  by (simp add: check_map_def)

lemma row_of_known:
  assumes "check_map cs n = Some f" "verdict (f x t Map.empty) = Some (s, k, v)"
  shows "(check_type (row_of sid n (execute_check cs x n t)),
          row_status (row_of sid n (execute_check cs x n t)),
          row_findings (row_of sid n (execute_check cs x n t)),
          row_severity (row_of sid n (execute_check cs x n t))) = (n, s, k, v)"
  using assms by (auto simp: execute_check_def row_of_def verdict_def split: sum.splits)

lemma task_row_known:
  assumes "verdict out = Some (s, k, v)"
  shows "(check_type (task_row sid n out), row_status (task_row sid n out),
          row_findings (task_row sid n out), row_severity (task_row sid n out)) =
         (n, Success, k, v)"
  using assms by (auto simp: task_row_def verdict_def split: sum.splits)

lemma execute_scan_summary:
  "snd (execute_scan cs w utcnow conn sid target chks cfg) =
     \<lparr>summary_scan_id = sid, summary_status = Completed,
      checks_completed = length (filter (known cs) chks), checks_total = length chks\<rparr>"
  using task_checks_count [of cs w sid target cfg "length chks" 0 0 chks
      "update_scan_progress (db_update_scan_status conn sid Running None) sid 0"]
  by (simp add: execute_scan_def Let_def case_prod_unfold)

text \<open>
  C2. On the check list \<open>[ping, headers, unknown_check]\<close>, in a world where every
  command exits with code 0 and no output, the Celery task \<^verbatim>\<open>execute_scan\<close> stores two
  result rows, for \<open>ping\<close> and \<open>headers\<close>, and none for \<open>unknown_check\<close>; its summary
  counts 2 checks completed of 3, and the job ends \<open>Completed\<close> with progress 100. The
  polling worker \<^verbatim>\<open>process_scan\<close>, on the same input, stores three rows in list order,
  the third for \<open>unknown_check\<close> with status \<open>Error\<close>, findings 0 and severity \<open>Info\<close>.
\<close>

theorem task_skips_unknown_check:
  "map (\<lambda>r. (check_type r, row_status r, row_findings r, row_severity r))
      (scan_results (last (fst (execute_scan checks_impl (\<lambda>i. quiet_env) 9 backlog ''b''
         ''example.org'' [''ping'', ''headers'', ''unknown_check''] Map.empty)))) =
     [(''ping'', Success, 0, Info), (''headers'', Success, 7, High)]
   \<and> snd (execute_scan checks_impl (\<lambda>i. quiet_env) 9 backlog ''b''
         ''example.org'' [''ping'', ''headers'', ''unknown_check''] Map.empty) =
     \<lparr>summary_scan_id = ''b'', summary_status = Completed,
      checks_completed = 2, checks_total = 3\<rparr>
   \<and> job_state (last (fst (execute_scan checks_impl (\<lambda>i. quiet_env) 9 backlog ''b''
         ''example.org'' [''ping'', ''headers'', ''unknown_check''] Map.empty))) ''b'' =
     Some (Completed, 100)
   \<and> map (\<lambda>r. (check_type r, row_status r, row_findings r, row_severity r))
      (scan_results (process_scan checks_impl (\<lambda>i. quiet_env) backlog
         (''b'', ''t1'', Some ''example.org'', [''ping'', ''headers'', ''unknown_check''], ''org''))) =
     [(''ping'', Success, 0, Info), (''headers'', Success, 7, High),
      (''unknown_check'', Error, 0, Info)]"
proof (intro conjI)
  have p: "ping checks_impl = ping_check" and h: "headers checks_impl = headers_check"
    by (simp_all add: checks_impl_def)
  have z: "zip [0 ..< length [''ping'', ''headers'', ''unknown_check'']]
      [''ping'', ''headers'', ''unknown_check''] =
      [(0, ''ping''), (1, ''headers''), (2, ''unknown_check'')]"
    by (simp add: upt_rec)
  show "map (\<lambda>r. (check_type r, row_status r, row_findings r, row_severity r))
      (scan_results (last (fst (execute_scan checks_impl (\<lambda>i. quiet_env) 9 backlog ''b''
         ''example.org'' [''ping'', ''headers'', ''unknown_check''] Map.empty)))) =
     [(''ping'', Success, 0, Info), (''headers'', Success, 7, High)]"
    unfolding execute_scan_results z
    by (simp add: backlog_b(4) List.map_filter_def check_map_unknown check_map_ping
          check_map_headers p h task_row_known [OF ping_quiet]
          task_row_known [OF headers_quiet_verdict])
  have k: "length (filter (known checks_impl) [''ping'', ''headers'', ''unknown_check'']) = 2"
    by (simp add: known_def check_map_def)
  show "snd (execute_scan checks_impl (\<lambda>i. quiet_env) 9 backlog ''b''
         ''example.org'' [''ping'', ''headers'', ''unknown_check''] Map.empty) =
     \<lparr>summary_scan_id = ''b'', summary_status = Completed,
      checks_completed = 2, checks_total = 3\<rparr>"
    unfolding execute_scan_summary k by simp
  show "job_state (last (fst (execute_scan checks_impl (\<lambda>i. quiet_env) 9 backlog ''b''
         ''example.org'' [''ping'', ''headers'', ''unknown_check''] Map.empty))) ''b'' =
     Some (Completed, 100)"
    by (rule execute_scan_final [OF backlog_b(2)])
  show "map (\<lambda>r. (check_type r, row_status r, row_findings r, row_severity r))
      (scan_results (process_scan checks_impl (\<lambda>i. quiet_env) backlog
         (''b'', ''t1'', Some ''example.org'', [''ping'', ''headers'', ''unknown_check''], ''org''))) =
     [(''ping'', Success, 0, Info), (''headers'', Success, 7, High),
      (''unknown_check'', Error, 0, Info)]"
    unfolding process_scan_results [OF backlog_b(1)] z
    using row_of_known [OF check_map_ping, of checks_impl quiet_env "''example.org''"
        Success 0 Info "''b''"]
      row_of_known [OF check_map_headers, of checks_impl quiet_env "''example.org''"
        Success 7 High "''b''"]
    by (simp add: backlog_b(4) p h ping_quiet headers_quiet_verdict execute_check_def
          check_map_unknown row_of_def)
qed

lemma progress_percent_formula:
  "progress_percent c t = \<lfloor>round_double (round_double (of_nat c / of_nat t) * 100)\<rfloor>"
proof -
  have "0 \<le> round_double (py_truediv (int c) (int t) * 100)"
    using py_truediv_nonneg [of c t] by (intro round_double_nonneg) simp
  then show ?thesis
    by (simp add: progress_percent_def py_float_mul_def py_int_def py_truediv_def)
qed

text \<open>
  C5 (as amended). After the check at position \<open>k\<close> of a job with \<open>T\<close> checks a
  progress update is committed, for every check and not only at the end, and the value
  it stores is \<^verbatim>\<open>int(((k + 1) / T) * 100)\<close>: the double nearest to the quotient, times
  100, rounded to the nearest double and truncated, a value between 0 and 100; it is not
  \<open>round(100 * completed / T)\<close>. This holds for \<^verbatim>\<open>process_scan\<close> on every check list,
  and for \<^verbatim>\<open>execute_scan\<close> on every check list whose names are all in the dictionary
  of checks.
\<close>

theorem progress_after_each_check:
  assumes r: "resolve_target conn tid u = Some target" and j: "job_of conn sid = Some j"
  shows "(\<forall>k<length chks.
            job_state (process_scan_commits cs w conn (sid, tid, u, chks, org) ! (2 * k + 2)) sid =
              Some (Running, progress_percent (k + 1) (length chks)))
       \<and> ((\<forall>n\<in>set chks. known cs n) \<longrightarrow>
            (\<forall>k<length chks.
               job_state (fst (execute_scan cs w utcnow conn sid target chks cfg) ! (2 * k + 3)) sid =
                 Some (Running, progress_percent (k + 1) (length chks))))
       \<and> (\<forall>c t. progress_percent c t =
                   \<lfloor>round_double (round_double (of_nat c / of_nat t) * 100)\<rfloor>)
       \<and> (\<forall>c t. c \<le> t \<longrightarrow> 0 \<le> progress_percent c t \<and> progress_percent c t \<le> 100)"
proof (intro conjI allI impI)
  fix k assume "k < length chks"
  then have "2 * k + 2 \<le> 2 * length chks + 1" "2 * k + 2 \<le> 2 * length chks"
    by simp_all
  moreover have "(2 * k + 2) div 2 = k + 1"
    by simp
  ultimately show "job_state (process_scan_commits cs w conn (sid, tid, u, chks, org) ! (2 * k + 2)) sid =
      Some (Running, progress_percent (k + 1) (length chks))"
    using process_scan_nth [OF r j, of "2 * k + 2" chks cs w org] by (simp only: if_True)
next
  fix k assume a: "\<forall>n\<in>set chks. known cs n" and k: "k < length chks"
  from a have f: "filter (known cs) chks = chks"
    by simp
  from k have "2 * k + 3 \<le> 2 * length (filter (known cs) chks) + 3"
    "2 * k + 3 \<le> 2 * length (filter (known cs) chks) + 1" "2 * k + 3 \<noteq> 0"
    unfolding f by simp_all
  moreover have "(2 * k + 3 - 1) div 2 = k + 1"
    by simp
  ultimately show "job_state (fst (execute_scan cs w utcnow conn sid target chks cfg) ! (2 * k + 3)) sid =
      Some (Running, progress_percent (k + 1) (length chks))"
    using execute_scan_nth [OF j, of "2 * k + 3" cs chks w utcnow target cfg]
    by (simp only: if_True if_False)
next
  fix c t show "progress_percent c t = \<lfloor>round_double (round_double (of_nat c / of_nat t) * 100)\<rfloor>"
    by (rule progress_percent_formula)
next
  fix c t :: nat assume "c \<le> t"
  then show "0 \<le> progress_percent c t" "progress_percent c t \<le> 100"
    by (simp_all add: progress_percent_nonneg progress_percent_bound)
qed

lemma progress_2_of_3: "progress_percent 2 3 = 66"
  by code_simp

lemma progress_2_of_3_Suc: "progress_percent (Suc (Suc 0)) (Suc (Suc (Suc 0))) = 66"
  using progress_2_of_3 by (simp add: eval_nat_numeral)

lemma round_2_of_3: "round (100 * of_nat 2 / (of_nat 3 :: rat)) = 67"
  by code_simp

theorem progress_after_each_check_witness:
  "resolve_target backlog ''t1'' (Some ''example.org'') = Some ''example.org''
   \<and> known checks_impl ''ping'' \<and> known checks_impl ''headers'' \<and> known checks_impl ''dns''
   \<and> job_state (process_scan_commits checks_impl (\<lambda>i. quiet_env) backlog
        (''b'', ''t1'', Some ''example.org'', [''ping'', ''headers'', ''dns''], ''org'')
          ! 4) ''b'' = Some (Running, 66)
   \<and> job_state (fst (execute_scan checks_impl (\<lambda>i. quiet_env) 9 backlog ''b'' ''example.org''
        [''ping'', ''headers'', ''dns''] Map.empty) ! 5) ''b'' = Some (Running, 66)
   \<and> progress_percent 2 3 \<le> 100"
proof -
  have k: "\<forall>n\<in>set [''ping'', ''headers'', ''dns'']. known checks_impl n"
    by (simp add: known_def check_map_def)
  note t = progress_after_each_check [OF backlog_b(1,2), of "[''ping'', ''headers'', ''dns'']"
      checks_impl "\<lambda>i. quiet_env" "''org''" 9 Map.empty]
  note t1 = t [THEN conjunct1, rule_format, of 1]
  note t2 = t [THEN conjunct2, THEN conjunct1, THEN mp, OF k, rule_format, of 1]
  note t4 = t [THEN conjunct2, THEN conjunct2, THEN conjunct2, rule_format, of 2 3]
  have c1: "job_state (process_scan_commits checks_impl (\<lambda>i. quiet_env) backlog
        (''b'', ''t1'', Some ''example.org'', [''ping'', ''headers'', ''dns''], ''org'')
          ! 4) ''b'' = Some (Running, 66)"
    using t1 by (simp add: progress_2_of_3_Suc)
  have c2: "job_state (fst (execute_scan checks_impl (\<lambda>i. quiet_env) 9 backlog ''b'' ''example.org''
        [''ping'', ''headers'', ''dns''] Map.empty) ! 5) ''b'' = Some (Running, 66)"
    using t2 by (simp add: progress_2_of_3_Suc)
  have c3: "progress_percent 2 3 \<le> 100"
    using t4 by simp
  have c0: "known checks_impl ''ping''" "known checks_impl ''headers''" "known checks_impl ''dns''"
    using k by simp_all
  show ?thesis
    using backlog_b(1) c0 c1 c2 c3 by (intro conjI)
qed

text \<open>
  The claim as stated fails: after the second of three checks the stored progress is
  66, whereas \<open>round(100 * 2 / 3)\<close> is 67.
\<close>

theorem progress_truncated_counterexample:
  "\<not> (\<forall>(cs :: env checks_pkg) w conn sid tid u chks org target j k.
        resolve_target conn tid u = Some target \<longrightarrow> job_of conn sid = Some j \<longrightarrow>
        k < length chks \<longrightarrow>
        map_option progress
          (job_of (process_scan_commits cs w conn (sid, tid, u, chks, org) ! (2 * k + 2)) sid) =
        Some (round (100 * of_nat (k + 1) / (of_nat (length chks) :: rat))))"
proof
  assume a: "\<forall>(cs :: env checks_pkg) w conn sid tid u chks org target j k.
        resolve_target conn tid u = Some target \<longrightarrow> job_of conn sid = Some j \<longrightarrow>
        k < length chks \<longrightarrow>
        map_option progress
          (job_of (process_scan_commits cs w conn (sid, tid, u, chks, org) ! (2 * k + 2)) sid) =
        Some (round (100 * of_nat (k + 1) / (of_nat (length chks) :: rat)))"
  have "map_option progress
          (job_of (process_scan_commits checks_impl (\<lambda>i. quiet_env) backlog
             (''b'', ''t1'', Some ''example.org'', [''ping'', ''headers'', ''unknown_check''], ''org'')
               ! (2 * 1 + 2)) ''b'') =
        Some (round (100 * of_nat (1 + 1) / (of_nat (length [''ping'', ''headers'', ''unknown_check'']) :: rat)))"
    by (rule a [rule_format, OF backlog_b(1,2)]) simp
  then have p: "map_option progress
          (job_of (process_scan_commits checks_impl (\<lambda>i. quiet_env) backlog
             (''b'', ''t1'', Some ''example.org'', [''ping'', ''headers'', ''unknown_check''], ''org'')
               ! 4) ''b'') = Some 67"
    using round_2_of_3 by (simp del: map_option_eq_Some)
  have l: "length [''ping'', ''headers'', ''unknown_check''] = 3"
    by simp
  have d: "(4::nat) div 2 = 2"
    by simp
  have le: "(4::nat) \<le> 2 * 3 + 1" "(4::nat) \<le> 2 * 3"
    by simp_all
  have "job_state (process_scan_commits checks_impl (\<lambda>i. quiet_env) backlog
        (''b'', ''t1'', Some ''example.org'', [''ping'', ''headers'', ''unknown_check''], ''org'')
          ! 4) ''b'' = Some (Running, progress_percent 2 3)"
    using process_scan_nth [OF backlog_b(1,2), of 4 "[''ping'', ''headers'', ''unknown_check'']"
        checks_impl "\<lambda>i. quiet_env" "''org''", unfolded l d, OF le(1)] le(2)
    by (simp only: if_True)
  then have "map_option progress
          (job_of (process_scan_commits checks_impl (\<lambda>i. quiet_env) backlog
             (''b'', ''t1'', Some ''example.org'', [''ping'', ''headers'', ''unknown_check''], ''org'')
               ! 4) ''b'') = Some 66"
    unfolding progress_2_of_3 by (auto simp: job_state_def)
  with p show False
    by simp
qed

text \<open>
  C6 (as amended). Within a run the progress values stored for the job never decrease.
  Progress 100 is not confined to the status \<open>Completed\<close>: the update after the last
  check already stores 100 while the status is still \<open>Running\<close>, and the transition
  to \<open>Completed\<close> (progress 100) follows; for a job of at most \<open>2 ^ 53\<close> checks the
  progress is below 100 in every state before that update. The progress values that
  a run of the Celery task stores never decrease either (its first commit sets the
  status only, so its progress values start with the second commit), and its run
  ends \<open>Completed\<close> with progress 100.
\<close>

theorem progress_never_decreases:
  assumes r: "resolve_target conn tid u = Some target" and j: "job_of conn sid = Some j"
  shows "sorted (progress_log sid (process_scan_commits cs w conn (sid, tid, u, chks, org)))
       \<and> (chks \<noteq> [] \<longrightarrow>
            job_state (process_scan_commits cs w conn (sid, tid, u, chks, org) ! (2 * length chks)) sid =
              Some (Running, 100))
       \<and> job_state (last (process_scan_commits cs w conn (sid, tid, u, chks, org))) sid =
            Some (Completed, 100)
       \<and> (length chks \<le> 2 ^ 53 \<longrightarrow>
            (\<forall>n<2 * length chks. \<exists>p.
               job_state (process_scan_commits cs w conn (sid, tid, u, chks, org) ! n) sid =
                 Some (Running, p) \<and> p < 100))
       \<and> sorted (progress_log sid (tl (fst (execute_scan cs w utcnow conn sid target chks cfg))))
       \<and> job_state (last (fst (execute_scan cs w utcnow conn sid target chks cfg))) sid =
            Some (Completed, 100)"
proof (intro conjI impI allI)
  show "sorted (progress_log sid (process_scan_commits cs w conn (sid, tid, u, chks, org)))"
    unfolding process_scan_progress_log [OF r j]
    by (rule sorted_progress_values) simp
next
  assume "chks \<noteq> []"
  then have "0 < length chks"
    by simp
  then show "job_state (process_scan_commits cs w conn (sid, tid, u, chks, org) ! (2 * length chks)) sid =
      Some (Running, 100)"
    using process_scan_nth [OF r j, of "2 * length chks" chks cs w org]
    by (simp add: progress_percent_all)
next
  show "job_state (last (process_scan_commits cs w conn (sid, tid, u, chks, org))) sid =
      Some (Completed, 100)"
    using process_scan_final [OF r j, of cs w chks org] by (simp only: process_scan_def)
next
  fix n
  assume t: "length chks \<le> 2 ^ 53" and n: "n < 2 * length chks"
  then have "n div 2 < length chks"
    by linarith
  then have "progress_percent (n div 2) (length chks) \<le> 99"
    using t by (rule progress_percent_lt_100)
  moreover have "job_state (process_scan_commits cs w conn (sid, tid, u, chks, org) ! n) sid =
      Some (Running, progress_percent (n div 2) (length chks))"
    using process_scan_nth [OF r j, of n chks cs w org] n by simp
  ultimately show "\<exists>p. job_state (process_scan_commits cs w conn (sid, tid, u, chks, org) ! n) sid =
      Some (Running, p) \<and> p < 100"
    by simp
next
  have "length (filter (known cs) chks) \<le> length chks"
    by simp
  then have "2 * length (filter (known cs) chks) + 1 \<le> 2 * length chks + 1"
    by simp
  then show "sorted (progress_log sid (tl (fst (execute_scan cs w utcnow conn sid target chks cfg))))"
    unfolding execute_scan_progress_log [OF j]
    by (rule sorted_progress_values)
next
  show "job_state (last (fst (execute_scan cs w utcnow conn sid target chks cfg))) sid =
      Some (Completed, 100)"
    by (rule execute_scan_final [OF j])
qed

theorem progress_never_decreases_witness:
  "resolve_target backlog ''t1'' (Some ''example.org'') = Some ''example.org''
   \<and> sorted (progress_log ''a'' (process_scan_commits checks_impl (\<lambda>i. quiet_env) backlog
        (''a'', ''t1'', Some ''example.org'', [''ping''], ''org'')))
   \<and> job_state (process_scan_commits checks_impl (\<lambda>i. quiet_env) backlog
        (''a'', ''t1'', Some ''example.org'', [''ping''], ''org'') ! 2) ''a'' = Some (Running, 100)
   \<and> job_state (last (process_scan_commits checks_impl (\<lambda>i. quiet_env) backlog
        (''a'', ''t1'', Some ''example.org'', [''ping''], ''org''))) ''a'' = Some (Completed, 100)"
proof -
  note t = progress_never_decreases [OF backlog_b(1,3), of checks_impl "\<lambda>i. quiet_env" "[''ping'']"
      "''org''" 9 Map.empty]
  from t have c1: "sorted (progress_log ''a'' (process_scan_commits checks_impl (\<lambda>i. quiet_env) backlog
        (''a'', ''t1'', Some ''example.org'', [''ping''], ''org'')))"
    by blast
  from t have "[''ping''] \<noteq> [] \<longrightarrow> job_state (process_scan_commits checks_impl (\<lambda>i. quiet_env) backlog
        (''a'', ''t1'', Some ''example.org'', [''ping''], ''org'') ! (2 * length [''ping''])) ''a'' =
      Some (Running, 100)"
    by blast
  then have c2: "job_state (process_scan_commits checks_impl (\<lambda>i. quiet_env) backlog
        (''a'', ''t1'', Some ''example.org'', [''ping''], ''org'') ! 2) ''a'' = Some (Running, 100)"
    by simp
  from t have c3: "job_state (last (process_scan_commits checks_impl (\<lambda>i. quiet_env) backlog
        (''a'', ''t1'', Some ''example.org'', [''ping''], ''org''))) ''a'' = Some (Completed, 100)"
    by blast
  show ?thesis
    using backlog_b(1) c1 c2 c3 by (intro conjI)
qed

text \<open>
  The claim as stated fails: in the run of a job with the one check \<open>ping\<close>, the state
  after that check has progress 100 and status \<open>Running\<close>.
\<close>

theorem running_at_100_counterexample:
  "\<not> (\<forall>(cs :: env checks_pkg) w conn sd c st.
        c \<in> set (process_scan_commits cs w conn sd) \<longrightarrow>
        job_state c (fst sd) = Some (st, 100) \<longrightarrow> st = Completed)"
proof
  assume a: "\<forall>(cs :: env checks_pkg) w conn sd c st.
        c \<in> set (process_scan_commits cs w conn sd) \<longrightarrow>
        job_state c (fst sd) = Some (st, 100) \<longrightarrow> st = Completed"
  define commits where "commits = process_scan_commits checks_impl (\<lambda>i. quiet_env) backlog
        (''a'', ''t1'', Some ''example.org'', [''ping''], ''org'')"
  have len: "length commits = 4"
    using length_process_scan_commits [OF backlog_b(1), of checks_impl "\<lambda>i. quiet_env" "''a''"
        "[''ping'']" "''org''"]
    by (simp add: commits_def)
  have s: "job_state (commits ! 2) ''a'' = Some (Running, 100)"
    using process_scan_nth [OF backlog_b(1,3), of 2 "[''ping'']" checks_impl "\<lambda>i. quiet_env" "''org''"]
    by (simp add: commits_def progress_percent_all)
  have "commits ! 2 \<in> set commits"
    using len by simp
  from a [rule_format, of "commits ! 2" checks_impl "\<lambda>i. quiet_env" backlog
      "(''a'', ''t1'', Some ''example.org'', [''ping''], ''org'')" Running]
    this s
  show False
    by (simp add: commits_def)
qed

text \<open>
  The status that the polling worker saves for a known check: the status that the check
  reported, or \<open>Error\<close> when the check raised.
\<close>

lemma execute_check_status:
  assumes "check_map cs n = Some f"
  shows "status (execute_check cs x n t) =
     (case f x t Map.empty of Inl e \<Rightarrow> Error | Inr r \<Rightarrow> status r)"
  using assms by (simp add: execute_check_def split: sum.split)

text \<open>How the ping check answers when the command runs into its timeout.\<close>

lemma ping_timeout:
  "ping_check timeout_env ''example.org'' Map.empty =
     Inr (failed_result ''Ping check timed out'' 1 Medium)"
  by (simp add: ping_check_def ping_try_def and_then_def timeout_env_def Let_def)

text \<open>
  C4. When the ping command times out, the ping check returns gracefully with the
  status \<^verbatim>\<open>failed\<close>. The Celery task stores the row of that check with the status
  \<^verbatim>\<open>success\<close>; the polling worker, on the same input, stores \<^verbatim>\<open>failed\<close>, the
  status that the check reported.
\<close>

theorem task_stores_success_for_failed_check:
  "map_sum id status (ping_check timeout_env ''example.org'' Map.empty) = Inr CheckFailed
   \<and> map (\<lambda>r. (check_type r, row_status r))
        (scan_results (last (fst (execute_scan checks_impl (\<lambda>i. timeout_env) 9 backlog ''a''
           ''example.org'' [''ping''] Map.empty)))) = [(''ping'', Success)]
   \<and> map (\<lambda>r. (check_type r, row_status r))
        (scan_results (process_scan checks_impl (\<lambda>i. timeout_env) backlog
           (''a'', ''t1'', Some ''example.org'', [''ping''], ''org''))) = [(''ping'', CheckFailed)]"
proof (intro conjI)
  show "map_sum id status (ping_check timeout_env ''example.org'' Map.empty) = Inr CheckFailed"
    by (simp add: ping_timeout failed_result_def)
  have p: "ping checks_impl = ping_check"
    by (simp add: checks_impl_def)
  show "map (\<lambda>r. (check_type r, row_status r))
        (scan_results (last (fst (execute_scan checks_impl (\<lambda>i. timeout_env) 9 backlog ''a''
           ''example.org'' [''ping''] Map.empty)))) = [(''ping'', Success)]"
    by (simp add: execute_scan_results check_map_ping p ping_timeout task_row_def backlog_b(4))
  show "map (\<lambda>r. (check_type r, row_status r))
        (scan_results (process_scan checks_impl (\<lambda>i. timeout_env) backlog
           (''a'', ''t1'', Some ''example.org'', [''ping''], ''org''))) = [(''ping'', CheckFailed)]"
    by (simp add: process_scan_results [OF backlog_b(1)] execute_check_def check_map_ping p
          ping_timeout row_of_def backlog_b(4) failed_result_def)
qed

section \<open>Properties of the checks\<close>

text \<open>What each check can return, by the outcome of the body of its \<^verbatim>\<open>try\<close>.\<close>

lemma failed_result_simps:
  "status (failed_result m f s) = CheckFailed"
  "findings (failed_result m f s) = f"
  "severity (failed_result m f s) = s"
  by (simp_all add: failed_result_def)

lemma ping_try_cases:
  assumes "ping_try env t = Inr r"
  shows "status r = Success \<and> (findings r = 0 \<and> severity r = Info \<or> findings r = 1 \<and> severity r = High)"
  using assms
  by (auto simp: ping_try_def and_then_def Let_def split: sum.splits if_splits option.splits)

lemma ping_check_cases:
  "\<exists>r. ping_check env t c = Inr r \<and>
     (case ping_try env t of
        Inr r' \<Rightarrow> r = r'
      | Inl (TimeoutExpired m) \<Rightarrow> status r = CheckFailed \<and> findings r = 1 \<and> severity r = Medium
      | Inl e \<Rightarrow> status r = CheckFailed \<and> findings r = 0 \<and> severity r = Info)"
  by (auto simp: ping_check_def failed_result_simps split: sum.splits exn.splits)

lemma headers_try_cases:
  assumes "headers_try env t = Inr r"
  shows "severity r = headers_severity (findings r)
       \<and> (status r = Success \<or> status r = CheckFailed \<and> findings r = 0)"
  using assms
  by (auto simp: headers_try_def and_then_def Let_def failed_result_simps headers_severity_def
        split: sum.splits if_splits)

lemma headers_check_cases:
  "\<exists>r. headers_check env t c = Inr r \<and>
     (case headers_try env t of
        Inr r' \<Rightarrow> r = r'
      | Inl e \<Rightarrow> status r = CheckFailed \<and> findings r = 0 \<and> severity r = Info)"
  by (auto simp: headers_check_def failed_result_simps split: sum.splits exn.splits)

lemma ssl_try_cases:
  assumes "ssl_try env t = Inr r"
  shows "status r = Success \<and> (findings r = 0 \<and> severity r = Info
            \<or> findings r = 1 \<and> (severity r = High \<or> severity r = Medium)
            \<or> findings r = 2 \<and> severity r = Medium)
       \<or> status r = CheckFailed \<and> findings r = 1 \<and> severity r = High"
  using assms
  by (auto simp: ssl_try_def and_then_def Let_def failed_result_simps
        split: sum.splits if_splits)

lemma ssl_check_cases:
  "\<exists>r. ssl_check env t c = Inr r \<and>
     (case ssl_try env t of
        Inr r' \<Rightarrow> r = r'
      | Inl e \<Rightarrow> status r = CheckFailed \<and> findings r = 0 \<and> severity r = Info)"
  by (auto simp: ssl_check_def failed_result_simps split: sum.splits exn.splits)

lemma portscan_parse_cases:
  assumes "portscan_parse env out = Inr r"
  shows "status r = Success \<and> severity r = portscan_severity (findings r)
       \<or> status r = CheckFailed \<and> findings r = 0 \<and> severity r = Info"
  using assms
  by (auto simp: portscan_parse_def and_then_def Let_def failed_result_simps
        split: sum.splits exn.splits)

lemma port_scan_try_cases:
  assumes "port_scan_try env t = Inr r"
  shows "status r = Success \<and> severity r = portscan_severity (findings r)
       \<or> status r = CheckFailed \<and> findings r = 0 \<and> severity r = Info"
  using assms portscan_parse_cases [of env _ r]
  by (auto simp: port_scan_try_def and_then_def Let_def split: sum.splits if_splits)

lemma port_scan_check_cases:
  "\<exists>r. port_scan_check env t c = Inr r \<and>
     (case port_scan_try env t of
        Inr r' \<Rightarrow> r = r'
      | Inl e \<Rightarrow> status r = CheckFailed \<and> findings r = 0 \<and> severity r = Info)"
  by (auto simp: port_scan_check_def failed_result_simps split: sum.splits exn.splits)

lemma dns_check_cases:
  "\<exists>r. dns_check env t c = Inr r \<and> status r = Success
       \<and> severity r = (if zone_transfer env (bare_host t) then High else Info)"
  by (simp add: dns_check_def Let_def case_prod_unfold)

lemma bruteforce_try_cases:
  assumes "bruteforce_try env t c = Inr r"
  shows "status r = Success \<and> severity r = bruteforce_severity (findings r)"
  using assms
  by (auto simp: bruteforce_try_def and_then_def Let_def
        split: sum.splits if_splits option.splits pyval.splits)

lemma bruteforce_check_cases:
  "\<exists>r. bruteforce_check env t c = Inr r \<and>
     (case bruteforce_try env t c of
        Inr r' \<Rightarrow> r = r'
      | Inl e \<Rightarrow> status r = CheckFailed \<and> findings r = 0 \<and> severity r = Info)"
  by (auto simp: bruteforce_check_def failed_result_simps split: sum.splits exn.splits)

lemma ping_check_summary:
  assumes "ping_check env t c = Inr r"
  shows "status r \<noteq> Error"
    and "status r = CheckFailed \<Longrightarrow>
          findings r = 0 \<and> severity r = Info
          \<or> (\<exists>m. ping_try env t = Inl (TimeoutExpired m)) \<and> findings r = 1 \<and> severity r = Medium"
    and "\<exists>e. ping_try env t = Inl e \<Longrightarrow> status r = CheckFailed"
    and "severity r = (if findings r = 0 then Info else if status r = Success then High else Medium)"
  using assms ping_check_cases [of env t c] ping_try_cases [of env t]
  by (auto split: sum.splits exn.splits)

lemma headers_check_summary:
  assumes "headers_check env t c = Inr r"
  shows "status r \<noteq> Error"
    and "status r = CheckFailed \<Longrightarrow> findings r = 0 \<and> severity r = Info"
    and "\<exists>e. headers_try env t = Inl e \<Longrightarrow> status r = CheckFailed"
    and "severity r = headers_severity (findings r)"
  using assms headers_check_cases [of env t c] headers_try_cases [of env t]
  by (auto split: sum.splits simp: headers_severity_def)

lemma ssl_check_summary:
  assumes "ssl_check env t c = Inr r"
  shows "status r \<noteq> Error"
    and "status r = CheckFailed \<Longrightarrow>
          findings r = 0 \<and> severity r = Info
          \<or> ssl_try env t = Inr r \<and> findings r = 1 \<and> severity r = High"
    and "\<exists>e. ssl_try env t = Inl e \<Longrightarrow> status r = CheckFailed"
    and "findings r = 0 \<Longrightarrow> severity r = Info"
    and "findings r = 2 \<Longrightarrow> severity r = Medium"
    and "findings r = 0 \<or> findings r = 1 \<or> findings r = 2"
  using assms ssl_check_cases [of env t c] ssl_try_cases [of env t]
  by (auto split: sum.splits)

lemma port_scan_check_summary:
  assumes "port_scan_check env t c = Inr r"
  shows "status r \<noteq> Error"
    and "status r = CheckFailed \<Longrightarrow> findings r = 0 \<and> severity r = Info"
    and "\<exists>e. port_scan_try env t = Inl e \<Longrightarrow> status r = CheckFailed"
    and "severity r = (if status r = Success then portscan_severity (findings r) else Info)"
  using assms port_scan_check_cases [of env t c] port_scan_try_cases [of env t]
  by (auto split: sum.splits)

lemma bruteforce_check_summary:
  assumes "bruteforce_check env t c = Inr r"
  shows "status r \<noteq> Error"
    and "status r = CheckFailed \<Longrightarrow> findings r = 0 \<and> severity r = Info"
    and "\<exists>e. bruteforce_try env t c = Inl e \<Longrightarrow> status r = CheckFailed"
    and "severity r = bruteforce_severity (findings r)"
  using assms bruteforce_check_cases [of env t c] bruteforce_try_cases [of env t c]
  by (auto split: sum.splits simp: bruteforce_severity_def)

text \<open>Check by check: what each outcome of the commands and library calls gives.\<close>

lemma verdict_failed_result: "verdict (Inr (failed_result m f s)) = Some (CheckFailed, f, s)"
  by (simp add: verdict_def failed_result_def)

lemma ping_graceful:
  "(\<exists>r. ping_check env t c = Inr r \<and> (status r = Success \<or> status r = CheckFailed)
        \<and> (status r = CheckFailed \<longrightarrow>
             findings r = 0 \<and> severity r = Info
             \<or> (\<exists>m. ping_try env t = Inl (TimeoutExpired m))
               \<and> findings r = 1 \<and> severity r = Medium))
   \<and> (\<forall>e. ping_try env t = Inl e \<longrightarrow>
          verdict (ping_check env t c) =
            Some (if is_timeout e then (CheckFailed, 1, Medium) else (CheckFailed, 0, Info)))
   \<and> (\<forall>e. subprocess_run env (ping_command env t) 10 = Inl e \<longrightarrow> ping_try env t = Inl e)
   \<and> (\<forall>p. subprocess_run env (ping_command env t) 10 = Inr p \<and> returncode p \<noteq> 0 \<longrightarrow>
          verdict (ping_check env t c) = Some (Success, 1, High))"
proof (intro conjI allI impI)
  obtain r where r: "ping_check env t c = Inr r"
    using ping_check_cases [of env t c] by blast
  have "status r = Success \<or> status r = CheckFailed"
    using ping_check_summary(1) [OF r] by (cases "status r") simp_all
  then show "\<exists>r. ping_check env t c = Inr r \<and> (status r = Success \<or> status r = CheckFailed)
        \<and> (status r = CheckFailed \<longrightarrow>
             findings r = 0 \<and> severity r = Info
             \<or> (\<exists>m. ping_try env t = Inl (TimeoutExpired m))
               \<and> findings r = 1 \<and> severity r = Medium)"
    using r ping_check_summary(2) [OF r] by blast
next
  fix e assume "ping_try env t = Inl e"
  then show "verdict (ping_check env t c) =
      Some (if is_timeout e then (CheckFailed, 1, Medium) else (CheckFailed, 0, Info))"
    by (cases e) (simp_all add: ping_check_def is_timeout_def verdict_failed_result)
next
  fix e assume "subprocess_run env (ping_command env t) 10 = Inl e"
  then show "ping_try env t = Inl e"
    by (simp add: ping_try_def ping_command_def and_then_def Let_def)
next
  fix p assume "subprocess_run env (ping_command env t) 10 = Inr p \<and> returncode p \<noteq> 0"
  then show "verdict (ping_check env t c) = Some (Success, 1, High)"
    by (simp add: ping_check_def ping_try_def ping_command_def and_then_def Let_def verdict_def)
qed

lemma headers_graceful:
  "(\<exists>r. headers_check env t c = Inr r \<and> (status r = Success \<or> status r = CheckFailed)
        \<and> (status r = CheckFailed \<longrightarrow> findings r = 0 \<and> severity r = Info))
   \<and> (\<forall>e. headers_try env t = Inl e \<longrightarrow>
          verdict (headers_check env t c) = Some (CheckFailed, 0, Info))
   \<and> (\<forall>e. subprocess_run env (curl_command t) 15 = Inl e \<longrightarrow> headers_try env t = Inl e)
   \<and> (\<forall>p. subprocess_run env (curl_command t) 15 = Inr p \<and> returncode p \<noteq> 0 \<longrightarrow>
          verdict (headers_check env t c) = Some (CheckFailed, 0, Info))
   \<and> (\<forall>p. subprocess_run env (curl_command t) 15 = Inr p \<and> returncode p = 0 \<longrightarrow>
          (\<exists>r. headers_check env t c = Inr r \<and> status r = Success))"
proof (intro conjI allI impI)
  obtain r where r: "headers_check env t c = Inr r"
    using headers_check_cases [of env t c] by blast
  have "status r = Success \<or> status r = CheckFailed"
    using headers_check_summary(1) [OF r] by (cases "status r") simp_all
  then show "\<exists>r. headers_check env t c = Inr r \<and> (status r = Success \<or> status r = CheckFailed)
        \<and> (status r = CheckFailed \<longrightarrow> findings r = 0 \<and> severity r = Info)"
    using r headers_check_summary(2) [OF r] by blast
next
  fix e assume "headers_try env t = Inl e"
  then show "verdict (headers_check env t c) = Some (CheckFailed, 0, Info)"
    by (cases e) (simp_all add: headers_check_def verdict_failed_result)
next
  fix e assume "subprocess_run env (curl_command t) 15 = Inl e"
  then show "headers_try env t = Inl e"
    by (simp add: headers_try_def curl_command_def and_then_def Let_def)
next
  fix p assume "subprocess_run env (curl_command t) 15 = Inr p \<and> returncode p \<noteq> 0"
  then show "verdict (headers_check env t c) = Some (CheckFailed, 0, Info)"
    by (simp add: headers_check_def headers_try_def curl_command_def and_then_def Let_def
          verdict_failed_result)
next
  fix p assume "subprocess_run env (curl_command t) 15 = Inr p \<and> returncode p = 0"
  then show "\<exists>r. headers_check env t c = Inr r \<and> status r = Success"
    by (simp add: headers_check_def headers_try_def curl_command_def and_then_def Let_def)
qed

lemma ssl_graceful:
  "(\<exists>r. ssl_check env t c = Inr r \<and> (status r = Success \<or> status r = CheckFailed)
        \<and> (status r = CheckFailed \<longrightarrow>
             findings r = 0 \<and> severity r = Info
             \<or> (\<exists>p. subprocess_run env (openssl_command t) 10 = Inr p
                    \<and> returncode p \<noteq> 0 \<and> stdout p = [])
               \<and> findings r = 1 \<and> severity r = High))
   \<and> (\<forall>e. ssl_try env t = Inl e \<longrightarrow>
          verdict (ssl_check env t c) = Some (CheckFailed, 0, Info))
   \<and> (\<forall>e. subprocess_popen env [''echo'', ''Q''] = Inl e \<longrightarrow> ssl_try env t = Inl e)
   \<and> (\<forall>u e. subprocess_popen env [''echo'', ''Q''] = Inr u
            \<and> subprocess_run env (openssl_command t) 10 = Inl e \<longrightarrow> ssl_try env t = Inl e)
   \<and> (\<forall>u p. subprocess_popen env [''echo'', ''Q''] = Inr u
            \<and> subprocess_run env (openssl_command t) 10 = Inr p
            \<and> returncode p \<noteq> 0 \<and> stdout p = [] \<longrightarrow>
          verdict (ssl_check env t c) = Some (CheckFailed, 1, High))
   \<and> (\<forall>u p. subprocess_popen env [''echo'', ''Q''] = Inr u
            \<and> subprocess_run env (openssl_command t) 10 = Inr p
            \<and> (returncode p = 0 \<or> stdout p \<noteq> []) \<longrightarrow>
          (\<exists>r. ssl_check env t c = Inr r \<and> status r = Success))"
proof (intro conjI allI impI)
  obtain r where r: "ssl_check env t c = Inr r"
    using ssl_check_cases [of env t c] by blast
  have s: "status r = Success \<or> status r = CheckFailed"
    using ssl_check_summary(1) [OF r] by (cases "status r") simp_all
  have "findings r = 0 \<and> severity r = Info
      \<or> (\<exists>p. subprocess_run env (openssl_command t) 10 = Inr p
             \<and> returncode p \<noteq> 0 \<and> stdout p = [])
        \<and> findings r = 1 \<and> severity r = High" if f: "status r = CheckFailed"
  proof -
    from ssl_check_summary(2) [OF r f]
    consider "findings r = 0 \<and> severity r = Info"
      | "ssl_try env t = Inr r" "findings r = 1 \<and> severity r = High"
      by blast
    then show ?thesis
    proof cases
      case 1
      then show ?thesis by blast
    next
      case 2
      from 2(1) f have "\<exists>p. subprocess_run env (openssl_command t) 10 = Inr p
             \<and> returncode p \<noteq> 0 \<and> stdout p = []"
        by (auto simp: ssl_try_def openssl_command_def and_then_def Let_def
              split: sum.splits if_splits)
      with 2(2) show ?thesis by blast
    qed
  qed
  with s show "\<exists>r. ssl_check env t c = Inr r \<and> (status r = Success \<or> status r = CheckFailed)
        \<and> (status r = CheckFailed \<longrightarrow>
             findings r = 0 \<and> severity r = Info
             \<or> (\<exists>p. subprocess_run env (openssl_command t) 10 = Inr p
                    \<and> returncode p \<noteq> 0 \<and> stdout p = [])
               \<and> findings r = 1 \<and> severity r = High)"
    using r by blast
next
  fix e assume "ssl_try env t = Inl e"
  then show "verdict (ssl_check env t c) = Some (CheckFailed, 0, Info)"
    by (cases e) (simp_all add: ssl_check_def verdict_failed_result)
next
  fix e assume "subprocess_popen env [''echo'', ''Q''] = Inl e"
  then show "ssl_try env t = Inl e"
    by (simp add: ssl_try_def and_then_def Let_def)
next
  fix u e assume "subprocess_popen env [''echo'', ''Q''] = Inr u
            \<and> subprocess_run env (openssl_command t) 10 = Inl e"
  then show "ssl_try env t = Inl e"
    by (simp add: ssl_try_def openssl_command_def and_then_def Let_def)
next
  fix u p assume "subprocess_popen env [''echo'', ''Q''] = Inr u
            \<and> subprocess_run env (openssl_command t) 10 = Inr p
            \<and> returncode p \<noteq> 0 \<and> stdout p = []"
  then show "verdict (ssl_check env t c) = Some (CheckFailed, 1, High)"
    by (simp add: ssl_check_def ssl_try_def openssl_command_def and_then_def Let_def
          verdict_failed_result)
next
  fix u p assume "subprocess_popen env [''echo'', ''Q''] = Inr u
            \<and> subprocess_run env (openssl_command t) 10 = Inr p
            \<and> (returncode p = 0 \<or> stdout p \<noteq> [])"
  then show "\<exists>r. ssl_check env t c = Inr r \<and> status r = Success"
    by (auto simp: ssl_check_def ssl_try_def openssl_command_def and_then_def Let_def)
qed

lemma port_scan_graceful:
  "(\<exists>r. port_scan_check env t c = Inr r \<and> (status r = Success \<or> status r = CheckFailed)
        \<and> (status r = CheckFailed \<longrightarrow> findings r = 0 \<and> severity r = Info))
   \<and> (\<forall>e. port_scan_try env t = Inl e \<longrightarrow>
          verdict (port_scan_check env t c) = Some (CheckFailed, 0, Info))
   \<and> (\<forall>e. subprocess_run env (nmap_command t) 900 = Inl e \<longrightarrow> port_scan_try env t = Inl e)
   \<and> (\<forall>p. subprocess_run env (nmap_command t) 900 = Inr p \<and> returncode p \<noteq> 0 \<longrightarrow>
          verdict (port_scan_check env t c) = Some (CheckFailed, 0, Info))
   \<and> (\<forall>p e. subprocess_run env (nmap_command t) 900 = Inr p \<and> returncode p = 0
            \<and> et_fromstring env (stdout p) = Inl e \<longrightarrow>
          verdict (port_scan_check env t c) = Some (CheckFailed, 0, Info))
   \<and> (\<forall>p doc ports. subprocess_run env (nmap_command t) 900 = Inr p \<and> returncode p = 0
            \<and> et_fromstring env (stdout p) = Inr doc
            \<and> open_ports env (findall doc ''port'') = Inr ports \<longrightarrow>
          verdict (port_scan_check env t c) =
            Some (Success, int (length ports), portscan_severity (int (length ports))))"
proof (intro conjI allI impI)
  obtain r where r: "port_scan_check env t c = Inr r"
    using port_scan_check_cases [of env t c] by blast
  have "status r = Success \<or> status r = CheckFailed"
    using port_scan_check_summary(1) [OF r] by (cases "status r") simp_all
  then show "\<exists>r. port_scan_check env t c = Inr r \<and> (status r = Success \<or> status r = CheckFailed)
        \<and> (status r = CheckFailed \<longrightarrow> findings r = 0 \<and> severity r = Info)"
    using r port_scan_check_summary(2) [OF r] by blast
next
  fix e assume "port_scan_try env t = Inl e"
  then show "verdict (port_scan_check env t c) = Some (CheckFailed, 0, Info)"
    by (cases e) (simp_all add: port_scan_check_def verdict_failed_result)
next
  fix e assume "subprocess_run env (nmap_command t) 900 = Inl e"
  then show "port_scan_try env t = Inl e"
    by (simp add: port_scan_try_def nmap_command_def and_then_def Let_def)
next
  fix p assume "subprocess_run env (nmap_command t) 900 = Inr p \<and> returncode p \<noteq> 0"
  then show "verdict (port_scan_check env t c) = Some (CheckFailed, 0, Info)"
    by (simp add: port_scan_check_def port_scan_try_def nmap_command_def and_then_def Let_def
          verdict_def)
next
  fix p e assume a: "subprocess_run env (nmap_command t) 900 = Inr p \<and> returncode p = 0
            \<and> et_fromstring env (stdout p) = Inl e"
  then have "port_scan_try env t = portscan_parse env (stdout p)"
    by (simp add: port_scan_try_def nmap_command_def and_then_def Let_def)
  moreover have "portscan_parse env (stdout p) =
      (case e of ParseError m \<Rightarrow> Inr (failed_result ''Failed to parse nmap output'' 0 Info)
               | _ \<Rightarrow> Inl e)"
    using a by (cases e) (simp_all add: portscan_parse_def and_then_def)
  ultimately show "verdict (port_scan_check env t c) = Some (CheckFailed, 0, Info)"
    by (cases e) (simp_all add: port_scan_check_def verdict_failed_result)
next
  fix p doc ports
  assume "subprocess_run env (nmap_command t) 900 = Inr p \<and> returncode p = 0
            \<and> et_fromstring env (stdout p) = Inr doc
            \<and> open_ports env (findall doc ''port'') = Inr ports"
  then show "verdict (port_scan_check env t c) =
            Some (Success, int (length ports), portscan_severity (int (length ports)))"
    by (simp add: port_scan_check_def port_scan_try_def nmap_command_def portscan_parse_def
          and_then_def Let_def verdict_def)
qed

lemma dns_graceful:
  "(\<exists>r. dns_check env t c = Inr r \<and> status r = Success)"
  using dns_check_cases [of env t c] by blast

lemma bruteforce_graceful:
  "(\<exists>r. bruteforce_check env t c = Inr r \<and> (status r = Success \<or> status r = CheckFailed)
        \<and> (status r = CheckFailed \<longrightarrow> findings r = 0 \<and> severity r = Info))
   \<and> (\<forall>e. bruteforce_try env t c = Inl e \<longrightarrow>
          verdict (bruteforce_check env t c) = Some (CheckFailed, 0, Info))
   \<and> (\<forall>e. path_exists env (configured_wordlist c) = Inl e \<longrightarrow> bruteforce_try env t c = Inl e)
   \<and> (\<forall>wl e. configured_wordlist c = PStr wl \<and> path_exists env (PStr wl) = Inr True
            \<and> subprocess_run env (gobuster_command t wl) 300 = Inl e \<longrightarrow>
          bruteforce_try env t c = Inl e)
   \<and> (\<forall>wl p. configured_wordlist c = PStr wl \<and> path_exists env (PStr wl) = Inr True
            \<and> subprocess_run env (gobuster_command t wl) 300 = Inr p \<longrightarrow>
          (\<exists>r. bruteforce_check env t c = Inr r \<and> status r = Success))
   \<and> (\<forall>e. path_exists env (configured_wordlist c) = Inr False
            \<and> write_file env ''/tmp/minimal_wordlist.txt'' minimal_wordlist = Inl e \<longrightarrow>
          bruteforce_try env t c = Inl e)
   \<and> (\<forall>u e. path_exists env (configured_wordlist c) = Inr False
            \<and> write_file env ''/tmp/minimal_wordlist.txt'' minimal_wordlist = Inr u
            \<and> subprocess_run env (gobuster_command t ''/tmp/minimal_wordlist.txt'') 300 = Inl e \<longrightarrow>
          bruteforce_try env t c = Inl e)"
proof (intro conjI allI impI)
  obtain r where r: "bruteforce_check env t c = Inr r"
    using bruteforce_check_cases [of env t c] by blast
  have "status r = Success \<or> status r = CheckFailed"
    using bruteforce_check_summary(1) [OF r] by (cases "status r") simp_all
  then show "\<exists>r. bruteforce_check env t c = Inr r \<and> (status r = Success \<or> status r = CheckFailed)
        \<and> (status r = CheckFailed \<longrightarrow> findings r = 0 \<and> severity r = Info)"
    using r bruteforce_check_summary(2) [OF r] by blast
next
  fix e assume "bruteforce_try env t c = Inl e"
  then show "verdict (bruteforce_check env t c) = Some (CheckFailed, 0, Info)"
    by (cases e) (simp_all add: bruteforce_check_def verdict_failed_result)
next
  fix e assume "path_exists env (configured_wordlist c) = Inl e"
  then show "bruteforce_try env t c = Inl e"
    by (simp add: bruteforce_try_def configured_wordlist_def and_then_def Let_def)
next
  fix wl e assume "configured_wordlist c = PStr wl \<and> path_exists env (PStr wl) = Inr True
            \<and> subprocess_run env (gobuster_command t wl) 300 = Inl e"
  then show "bruteforce_try env t c = Inl e"
    by (simp add: bruteforce_try_def configured_wordlist_def gobuster_command_def and_then_def
          Let_def)
next
  fix wl p assume "configured_wordlist c = PStr wl \<and> path_exists env (PStr wl) = Inr True
            \<and> subprocess_run env (gobuster_command t wl) 300 = Inr p"
  then show "\<exists>r. bruteforce_check env t c = Inr r \<and> status r = Success"
    by (simp add: bruteforce_check_def bruteforce_try_def configured_wordlist_def
          gobuster_command_def and_then_def Let_def)
next
  fix e assume "path_exists env (configured_wordlist c) = Inr False
            \<and> write_file env ''/tmp/minimal_wordlist.txt'' minimal_wordlist = Inl e"
  then show "bruteforce_try env t c = Inl e"
    by (simp add: bruteforce_try_def configured_wordlist_def and_then_def Let_def)
next
  fix u e assume "path_exists env (configured_wordlist c) = Inr False
            \<and> write_file env ''/tmp/minimal_wordlist.txt'' minimal_wordlist = Inr u
            \<and> subprocess_run env (gobuster_command t ''/tmp/minimal_wordlist.txt'') 300 = Inl e"
  then show "bruteforce_try env t c = Inl e"
    by (simp add: bruteforce_try_def configured_wordlist_def gobuster_command_def and_then_def
          Let_def)
qed

text \<open>
  C3 (as amended). For every check, every target, every configuration and every
  behaviour of the outside world, the check returns a result and raises no exception,
  and the status of that result is \<^verbatim>\<open>success\<close> or \<^verbatim>\<open>failed\<close>, never
  \<^verbatim>\<open>error\<close>. An exception that leaves the body of the check's \<^verbatim>\<open>try\<close> (a command
  that is absent or runs into its timeout, a conversion that raises) gives a
  \<^verbatim>\<open>failed\<close> result with findings 0 and severity \<open>Info\<close>, except that the ping check
  answers a timeout with findings 1 and severity \<open>Medium\<close>. A non-zero exit code of
  \<^verbatim>\<open>curl\<close> or of \<^verbatim>\<open>nmap\<close> gives \<^verbatim>\<open>failed\<close>, findings 0 and severity \<open>Info\<close>, and
  so does output of \<^verbatim>\<open>nmap\<close> that does not parse. The certificate check answers a
  connection that failed (non-zero exit code of \<^verbatim>\<open>openssl\<close> and no output) with
  \<^verbatim>\<open>failed\<close>, findings 1 and severity \<open>High\<close>, and every other exit of \<^verbatim>\<open>openssl\<close>
  with \<^verbatim>\<open>success\<close>. A \<^verbatim>\<open>failed\<close> result has findings 0 and severity \<open>Info\<close> in
  every case but those two. A non-zero exit code of \<^verbatim>\<open>ping\<close> is a finding, not a
  failure: \<^verbatim>\<open>success\<close>, findings 1, severity \<open>High\<close>. The DNS check swallows the
  failures of its queries and always reports \<^verbatim>\<open>success\<close>; the directory check does
  not look at the exit code of \<^verbatim>\<open>gobuster\<close>.
\<close>

theorem checks_return_gracefully:
  "((\<exists>r. ping_check env t c = Inr r \<and> (status r = Success \<or> status r = CheckFailed)
         \<and> (status r = CheckFailed \<longrightarrow>
              findings r = 0 \<and> severity r = Info
              \<or> (\<exists>m. ping_try env t = Inl (TimeoutExpired m))
                \<and> findings r = 1 \<and> severity r = Medium))
    \<and> (\<forall>e. ping_try env t = Inl e \<longrightarrow>
           verdict (ping_check env t c) =
             Some (if is_timeout e then (CheckFailed, 1, Medium) else (CheckFailed, 0, Info)))
    \<and> (\<forall>e. subprocess_run env (ping_command env t) 10 = Inl e \<longrightarrow> ping_try env t = Inl e)
    \<and> (\<forall>p. subprocess_run env (ping_command env t) 10 = Inr p \<and> returncode p \<noteq> 0 \<longrightarrow>
           verdict (ping_check env t c) = Some (Success, 1, High)))
   \<and> ((\<exists>r. headers_check env t c = Inr r \<and> (status r = Success \<or> status r = CheckFailed)
         \<and> (status r = CheckFailed \<longrightarrow> findings r = 0 \<and> severity r = Info))
    \<and> (\<forall>e. headers_try env t = Inl e \<longrightarrow>
           verdict (headers_check env t c) = Some (CheckFailed, 0, Info))
    \<and> (\<forall>e. subprocess_run env (curl_command t) 15 = Inl e \<longrightarrow> headers_try env t = Inl e)
    \<and> (\<forall>p. subprocess_run env (curl_command t) 15 = Inr p \<and> returncode p \<noteq> 0 \<longrightarrow>
           verdict (headers_check env t c) = Some (CheckFailed, 0, Info))
    \<and> (\<forall>p. subprocess_run env (curl_command t) 15 = Inr p \<and> returncode p = 0 \<longrightarrow>
           (\<exists>r. headers_check env t c = Inr r \<and> status r = Success)))
   \<and> ((\<exists>r. ssl_check env t c = Inr r \<and> (status r = Success \<or> status r = CheckFailed)
         \<and> (status r = CheckFailed \<longrightarrow>
              findings r = 0 \<and> severity r = Info
              \<or> (\<exists>p. subprocess_run env (openssl_command t) 10 = Inr p
                     \<and> returncode p \<noteq> 0 \<and> stdout p = [])
                \<and> findings r = 1 \<and> severity r = High))
    \<and> (\<forall>e. ssl_try env t = Inl e \<longrightarrow>
           verdict (ssl_check env t c) = Some (CheckFailed, 0, Info))
    \<and> (\<forall>e. subprocess_popen env [''echo'', ''Q''] = Inl e \<longrightarrow> ssl_try env t = Inl e)
    \<and> (\<forall>u e. subprocess_popen env [''echo'', ''Q''] = Inr u
             \<and> subprocess_run env (openssl_command t) 10 = Inl e \<longrightarrow> ssl_try env t = Inl e)
    \<and> (\<forall>u p. subprocess_popen env [''echo'', ''Q''] = Inr u
             \<and> subprocess_run env (openssl_command t) 10 = Inr p
             \<and> returncode p \<noteq> 0 \<and> stdout p = [] \<longrightarrow>
           verdict (ssl_check env t c) = Some (CheckFailed, 1, High))
    \<and> (\<forall>u p. subprocess_popen env [''echo'', ''Q''] = Inr u
             \<and> subprocess_run env (openssl_command t) 10 = Inr p
             \<and> (returncode p = 0 \<or> stdout p \<noteq> []) \<longrightarrow>
           (\<exists>r. ssl_check env t c = Inr r \<and> status r = Success)))
   \<and> ((\<exists>r. port_scan_check env t c = Inr r \<and> (status r = Success \<or> status r = CheckFailed)
         \<and> (status r = CheckFailed \<longrightarrow> findings r = 0 \<and> severity r = Info))
    \<and> (\<forall>e. port_scan_try env t = Inl e \<longrightarrow>
           verdict (port_scan_check env t c) = Some (CheckFailed, 0, Info))
    \<and> (\<forall>e. subprocess_run env (nmap_command t) 900 = Inl e \<longrightarrow> port_scan_try env t = Inl e)
    \<and> (\<forall>p. subprocess_run env (nmap_command t) 900 = Inr p \<and> returncode p \<noteq> 0 \<longrightarrow>
           verdict (port_scan_check env t c) = Some (CheckFailed, 0, Info))
    \<and> (\<forall>p e. subprocess_run env (nmap_command t) 900 = Inr p \<and> returncode p = 0
             \<and> et_fromstring env (stdout p) = Inl e \<longrightarrow>
           verdict (port_scan_check env t c) = Some (CheckFailed, 0, Info))
    \<and> (\<forall>p doc ports. subprocess_run env (nmap_command t) 900 = Inr p \<and> returncode p = 0
             \<and> et_fromstring env (stdout p) = Inr doc
             \<and> open_ports env (findall doc ''port'') = Inr ports \<longrightarrow>
           verdict (port_scan_check env t c) =
             Some (Success, int (length ports), portscan_severity (int (length ports)))))
   \<and> ((\<exists>r. dns_check env t c = Inr r \<and> status r = Success))
   \<and> ((\<exists>r. bruteforce_check env t c = Inr r \<and> (status r = Success \<or> status r = CheckFailed)
         \<and> (status r = CheckFailed \<longrightarrow> findings r = 0 \<and> severity r = Info))
    \<and> (\<forall>e. bruteforce_try env t c = Inl e \<longrightarrow>
           verdict (bruteforce_check env t c) = Some (CheckFailed, 0, Info))
    \<and> (\<forall>e. path_exists env (configured_wordlist c) = Inl e \<longrightarrow> bruteforce_try env t c = Inl e)
    \<and> (\<forall>wl e. configured_wordlist c = PStr wl \<and> path_exists env (PStr wl) = Inr True
             \<and> subprocess_run env (gobuster_command t wl) 300 = Inl e \<longrightarrow>
           bruteforce_try env t c = Inl e)
    \<and> (\<forall>wl p. configured_wordlist c = PStr wl \<and> path_exists env (PStr wl) = Inr True
             \<and> subprocess_run env (gobuster_command t wl) 300 = Inr p \<longrightarrow>
           (\<exists>r. bruteforce_check env t c = Inr r \<and> status r = Success))
    \<and> (\<forall>e. path_exists env (configured_wordlist c) = Inr False
             \<and> write_file env ''/tmp/minimal_wordlist.txt'' minimal_wordlist = Inl e \<longrightarrow>
           bruteforce_try env t c = Inl e)
    \<and> (\<forall>u e. path_exists env (configured_wordlist c) = Inr False
             \<and> write_file env ''/tmp/minimal_wordlist.txt'' minimal_wordlist = Inr u
             \<and> subprocess_run env (gobuster_command t ''/tmp/minimal_wordlist.txt'') 300 = Inl e \<longrightarrow>
           bruteforce_try env t c = Inl e))"
  by (rule conjI, rule ping_graceful, rule conjI, rule headers_graceful,
      rule conjI, rule ssl_graceful, rule conjI, rule port_scan_graceful,
      rule conjI, rule dns_graceful, rule bruteforce_graceful)

lemma ping_try_timeout: "ping_try timeout_env ''example.org'' = Inl (TimeoutExpired ''timed out'')"
  by (simp add: ping_try_def and_then_def timeout_env_def Let_def)

lemma ping_unreachable:
  "ping_check unreachable_env ''example.org'' Map.empty =
     Inr \<lparr>status = Success,
          data = PDict [(''reachable'', PBool False),
                        (''error'', PStr ''Target is not reachable''),
                        (''raw_output'', PStr [])],
          findings = 1, severity = High\<rparr>"
  by (simp add: ping_check_def ping_try_def and_then_def unreachable_env_def timeout_env_def Let_def)

lemma env_calls:
  "subprocess_run timeout_env cmd n = Inl (TimeoutExpired ''timed out'')"
  "subprocess_run unreachable_env cmd n = Inr \<lparr>returncode = 1, stdout = [], stderr = []\<rparr>"
  "subprocess_run quiet_env cmd n = Inr \<lparr>returncode = 0, stdout = [], stderr = []\<rparr>"
  "subprocess_popen unreachable_env cmd = Inr ()"
  "et_fromstring quiet_env out = Inl (ParseError ''no element found'')"
  by (simp_all add: timeout_env_def unreachable_env_def quiet_env_def)

theorem checks_return_gracefully_witness:
  "subprocess_run timeout_env (ping_command timeout_env ''example.org'') 10 =
     Inl (TimeoutExpired ''timed out'')
   \<and> verdict (ping_check timeout_env ''example.org'' Map.empty) = Some (CheckFailed, 1, Medium)
   \<and> verdict (headers_check timeout_env ''example.org'' Map.empty) = Some (CheckFailed, 0, Info)
   \<and> verdict (ping_check unreachable_env ''example.org'' Map.empty) = Some (Success, 1, High)
   \<and> verdict (headers_check unreachable_env ''example.org'' Map.empty) = Some (CheckFailed, 0, Info)
   \<and> verdict (ssl_check unreachable_env ''example.org'' Map.empty) = Some (CheckFailed, 1, High)
   \<and> verdict (port_scan_check unreachable_env ''example.org'' Map.empty) =
       Some (CheckFailed, 0, Info)
   \<and> verdict (port_scan_check quiet_env ''example.org'' Map.empty) = Some (CheckFailed, 0, Info)"
proof -
  note t = checks_return_gracefully [of timeout_env "''example.org''" Map.empty]
  note u = checks_return_gracefully [of unreachable_env "''example.org''" Map.empty]
  note q = checks_return_gracefully [of quiet_env "''example.org''" Map.empty]
  note tp = t [THEN conjunct1]
  note th = t [THEN conjunct2, THEN conjunct1]
  note up = u [THEN conjunct1]
  note uh = u [THEN conjunct2, THEN conjunct1]
  note us = u [THEN conjunct2, THEN conjunct2, THEN conjunct1]
  note un = u [THEN conjunct2, THEN conjunct2, THEN conjunct2, THEN conjunct1]
  note qn = q [THEN conjunct2, THEN conjunct2, THEN conjunct2, THEN conjunct1]
  have c0: "subprocess_run timeout_env (ping_command timeout_env ''example.org'') 10 =
      Inl (TimeoutExpired ''timed out'')"
    by (rule env_calls)
  have "ping_try timeout_env ''example.org'' = Inl (TimeoutExpired ''timed out'')"
    using tp [THEN conjunct2, THEN conjunct2, THEN conjunct1] c0 by blast
  then have c1: "verdict (ping_check timeout_env ''example.org'' Map.empty) =
      Some (CheckFailed, 1, Medium)"
    using tp [THEN conjunct2, THEN conjunct1] by (simp add: is_timeout_def)
  have "headers_try timeout_env ''example.org'' = Inl (TimeoutExpired ''timed out'')"
    using th [THEN conjunct2, THEN conjunct2, THEN conjunct1] env_calls(1) by blast
  then have c2: "verdict (headers_check timeout_env ''example.org'' Map.empty) =
      Some (CheckFailed, 0, Info)"
    using th [THEN conjunct2, THEN conjunct1] by blast
  have c3: "verdict (ping_check unreachable_env ''example.org'' Map.empty) = Some (Success, 1, High)"
    using up [THEN conjunct2, THEN conjunct2, THEN conjunct2] by (simp add: env_calls)
  have c4: "verdict (headers_check unreachable_env ''example.org'' Map.empty) =
      Some (CheckFailed, 0, Info)"
    using uh [THEN conjunct2, THEN conjunct2, THEN conjunct2, THEN conjunct1]
    by (simp add: env_calls)
  have c5: "verdict (ssl_check unreachable_env ''example.org'' Map.empty) =
      Some (CheckFailed, 1, High)"
    using us [THEN conjunct2, THEN conjunct2, THEN conjunct2, THEN conjunct2, THEN conjunct1]
    by (simp add: env_calls)
  have c6: "verdict (port_scan_check unreachable_env ''example.org'' Map.empty) =
      Some (CheckFailed, 0, Info)"
    using un [THEN conjunct2, THEN conjunct2, THEN conjunct2, THEN conjunct1]
    by (simp add: env_calls)
  have c7: "verdict (port_scan_check quiet_env ''example.org'' Map.empty) =
      Some (CheckFailed, 0, Info)"
    using qn [THEN conjunct2, THEN conjunct2, THEN conjunct2, THEN conjunct2, THEN conjunct1]
    by (simp add: env_calls)
  show ?thesis
    using c0 c1 c2 c3 c4 c5 c6 c7 by (intro conjI)
qed

text \<open>
  The claim as stated fails: when the ping command times out, the ping check returns
  findings 1 and severity \<open>Medium\<close>, not findings 0 and severity \<open>Info\<close>.
\<close>

theorem ping_timeout_findings_counterexample:
  "\<not> (\<forall>env t c e. ping_try env t = Inl e \<longrightarrow>
        (\<exists>r. ping_check env t c = Inr r \<and> status r = CheckFailed
             \<and> findings r = 0 \<and> severity r = Info))"
proof
  assume "\<forall>env t c e. ping_try env t = Inl e \<longrightarrow>
        (\<exists>r. ping_check env t c = Inr r \<and> status r = CheckFailed
             \<and> findings r = 0 \<and> severity r = Info)"
  from this [rule_format, OF ping_try_timeout, of Map.empty]
  show False
    by (simp add: ping_timeout failed_result_def)
qed

text \<open>
  C7 (as amended). For the header check and the directory check the severity is a
  function of the findings count alone (the thresholds \<open>headers_severity\<close> and
  \<open>bruteforce_severity\<close>): two invocations with the same findings count give the same
  severity. For the ping check and the port scan the severity is a function of the
  findings count together with the status of the result. For the DNS check the
  severity is \<open>High\<close> exactly when the zone transfer test succeeded, whatever the
  findings count; for the certificate check findings 0 give \<open>Info\<close>, findings 2 give
  \<open>Medium\<close>, and there are no more than 2 findings.
\<close>

theorem severity_from_findings:
  "(headers_check e1 t1 c1 = Inr r1 \<and> headers_check e2 t2 c2 = Inr r2
      \<and> findings r1 = findings r2 \<longrightarrow> severity r1 = severity r2)
   \<and> (headers_check e1 t1 c1 = Inr r1 \<longrightarrow> severity r1 = headers_severity (findings r1))
   \<and> (bruteforce_check e1 t1 c1 = Inr r1 \<and> bruteforce_check e2 t2 c2 = Inr r2
      \<and> findings r1 = findings r2 \<longrightarrow> severity r1 = severity r2)
   \<and> (bruteforce_check e1 t1 c1 = Inr r1 \<longrightarrow> severity r1 = bruteforce_severity (findings r1))
   \<and> (ping_check e1 t1 c1 = Inr r1 \<and> ping_check e2 t2 c2 = Inr r2
      \<and> status r1 = status r2 \<and> findings r1 = findings r2 \<longrightarrow> severity r1 = severity r2)
   \<and> (port_scan_check e1 t1 c1 = Inr r1 \<and> port_scan_check e2 t2 c2 = Inr r2
      \<and> status r1 = status r2 \<and> findings r1 = findings r2 \<longrightarrow> severity r1 = severity r2)
   \<and> (port_scan_check e1 t1 c1 = Inr r1 \<and> status r1 = Success \<longrightarrow>
        severity r1 = portscan_severity (findings r1))
   \<and> (dns_check e1 t1 c1 = Inr r1 \<longrightarrow>
        severity r1 = (if zone_transfer e1 (bare_host t1) then High else Info))
   \<and> (ssl_check e1 t1 c1 = Inr r1 \<longrightarrow>
        (findings r1 = 0 \<longrightarrow> severity r1 = Info) \<and> (findings r1 = 2 \<longrightarrow> severity r1 = Medium)
        \<and> (findings r1 = 0 \<or> findings r1 = 1 \<or> findings r1 = 2))"
proof (intro conjI impI)
  assume "headers_check e1 t1 c1 = Inr r1 \<and> headers_check e2 t2 c2 = Inr r2
      \<and> findings r1 = findings r2"
  then show "severity r1 = severity r2"
    using headers_check_summary(4) [of e1 t1 c1 r1] headers_check_summary(4) [of e2 t2 c2 r2]
    by simp
next
  assume "headers_check e1 t1 c1 = Inr r1"
  then show "severity r1 = headers_severity (findings r1)"
    by (rule headers_check_summary(4))
next
  assume "bruteforce_check e1 t1 c1 = Inr r1 \<and> bruteforce_check e2 t2 c2 = Inr r2
      \<and> findings r1 = findings r2"
  then show "severity r1 = severity r2"
    using bruteforce_check_summary(4) [of e1 t1 c1 r1] bruteforce_check_summary(4) [of e2 t2 c2 r2]
    by simp
next
  assume "bruteforce_check e1 t1 c1 = Inr r1"
  then show "severity r1 = bruteforce_severity (findings r1)"
    by (rule bruteforce_check_summary(4))
next
  assume "ping_check e1 t1 c1 = Inr r1 \<and> ping_check e2 t2 c2 = Inr r2
      \<and> status r1 = status r2 \<and> findings r1 = findings r2"
  then show "severity r1 = severity r2"
    using ping_check_summary(4) [of e1 t1 c1 r1] ping_check_summary(4) [of e2 t2 c2 r2]
    by simp
next
  assume "port_scan_check e1 t1 c1 = Inr r1 \<and> port_scan_check e2 t2 c2 = Inr r2
      \<and> status r1 = status r2 \<and> findings r1 = findings r2"
  then show "severity r1 = severity r2"
    using port_scan_check_summary(4) [of e1 t1 c1 r1] port_scan_check_summary(4) [of e2 t2 c2 r2]
    by simp
next
  assume "port_scan_check e1 t1 c1 = Inr r1 \<and> status r1 = Success"
  then show "severity r1 = portscan_severity (findings r1)"
    using port_scan_check_summary(4) [of e1 t1 c1 r1] by simp
next
  assume "dns_check e1 t1 c1 = Inr r1"
  then show "severity r1 = (if zone_transfer e1 (bare_host t1) then High else Info)"
    using dns_check_cases [of e1 t1 c1] by auto
next
  assume a: "ssl_check e1 t1 c1 = Inr r1"
  { assume "findings r1 = 0" then show "severity r1 = Info"
      by (rule ssl_check_summary(4) [OF a]) }
  { assume "findings r1 = 2" then show "severity r1 = Medium"
      by (rule ssl_check_summary(5) [OF a]) }
  show "findings r1 = 0 \<or> findings r1 = 1 \<or> findings r1 = 2"
    by (rule ssl_check_summary(6) [OF a])
qed

lemma headers_quiet:
  "\<exists>r. headers_check quiet_env ''example.org'' Map.empty = Inr r \<and> findings r = 7"
  by (simp add: headers_check_def headers_try_def and_then_def quiet_env_def timeout_env_def
        Let_def with_scheme_def startswith_def parse_headers_def SECURITY_HEADERS_def)

theorem severity_from_findings_witness:
  "(\<exists>r. headers_check quiet_env ''example.org'' Map.empty = Inr r
        \<and> findings r = 7 \<and> severity r = High)"
proof -
  obtain r where r: "headers_check quiet_env ''example.org'' Map.empty = Inr r" "findings r = 7"
    using headers_quiet by blast
  from severity_from_findings [of quiet_env "''example.org''" Map.empty r]
  have "headers_check quiet_env ''example.org'' Map.empty = Inr r \<longrightarrow>
      severity r = headers_severity (findings r)"
    by blast
  then have "severity r = High"
    using r by (simp add: headers_severity_def)
  with r show ?thesis
    by blast
qed

text \<open>
  The claim as stated fails for the ping check: an unreachable target gives findings 1
  with severity \<open>High\<close>, a timeout gives findings 1 with severity \<open>Medium\<close>.
\<close>

theorem ping_same_findings_counterexample:
  "\<not> (\<forall>e1 e2 t1 t2 c1 c2 r1 r2.
        ping_check e1 t1 c1 = Inr r1 \<longrightarrow> ping_check e2 t2 c2 = Inr r2 \<longrightarrow>
        findings r1 = findings r2 \<longrightarrow> severity r1 = severity r2)"
proof
  assume "\<forall>e1 e2 t1 t2 c1 c2 r1 r2.
        ping_check e1 t1 c1 = Inr r1 \<longrightarrow> ping_check e2 t2 c2 = Inr r2 \<longrightarrow>
        findings r1 = findings r2 \<longrightarrow> severity r1 = severity r2"
  from this [rule_format, OF ping_unreachable ping_timeout]
  show False
    by (simp add: failed_result_def)
qed

end
